theory Spec2Isabelle
  imports Complex_Main "HOL-Library.Word" "HOL-Library.Log_Nat"
begin

unbundle bit_operations_syntax

section \<open>The board daemon (selfdrive/boardd/boardd.cc)\<close>

text \<open>
  The daemon's loops talk to the outside world through calls on the two board handles,
  the parameter store, the publisher and the log. Each loop body is embedded as a function
  from what the iteration reads (polled health, clock readings, received message, shared
  flags) to the updated loop state and the list of calls it makes, in program order.
\<close>

subsection \<open>Shared vocabulary\<close>

type_synonym u8 = "8 word"
type_synonym u16 = "16 word"
type_synonym u32 = "32 word"
type_synonym u64 = "64 word"

text \<open>The two board slots \<open>main_panda\<close> and \<open>aux_panda\<close>.\<close>

datatype board = Main | Aux

text \<open>
  \<open>cereal::CarParams::SafetyModel\<close> is a 16-bit enum declared in car.capnp, which
  is not part of the sources at hand. Its enumerants are therefore a parameter of every
  function that names one: a record of the three values the daemon mentions.
\<close>

type_synonym SafetyModel = u16

record SafetyModelEnum =
  SILENT :: SafetyModel
  ELM327 :: SafetyModel
  NO_OUTPUT :: SafetyModel

text \<open>
  The flags \<open>params.clearAll\<close> is called with (declared in params.h, not at hand).
\<close>

datatype ParamKeyType = CLEAR_ON_IGNITION_ON | CLEAR_ON_IGNITION_OFF

text \<open>
  The calls a loop makes on the boards, the parameter store, the publisher and the thread
  library, and its store to the atomic \<open>safety_setter_thread_running\<close> (kept in the
  list because its place before the launch matters). \<open>set_safety_model\<close> is called
  with one or with two arguments; the second is kept as an option so that the call is
  recorded as written.
\<close>

datatype 'batch action =
    GetState board
  | GetRtc board
  | GetFanSpeed board
  | SetSafetyModel board SafetyModel "int option"
  | SetUnsafeMode board nat
  | SetPowerSaving board bool
  | SetRtc board
  | SendHeartbeat board
  | CanSend board 'batch
  | ClearAll ParamKeyType
  | StoreSetterRunning bool
  | LaunchSafetySetter
  | PublishPandaState bool

text \<open>Dereferencing \<open>aux_panda\<close> while it is \<open>nullptr\<close>.\<close>

datatype fault = NullBoard board

text \<open>
  The process-wide configuration the loops read: the bus shift of the main board (0 unless
  \<open>AUX_CAN_DRIVE\<close> is set, then 3), whether \<open>aux_panda\<close> is non-null, and the
  \<open>has_rtc\<close> flag of the main board.
\<close>

record boardd_globals =
  main_shift :: u8
  aux_connected :: bool
  main_has_rtc :: bool

subsection \<open>Floating point\<close>

text \<open>
  The freshness test of the send loop and the RTC test of the state loop compare an integer
  with a \<open>double\<close> literal, and the IR power is computed in \<open>float\<close>, on targets
  (x86-64, aarch64) that evaluate each operation in the precision of its type. A binary
  floating-point number with \<open>p\<close>
  significant bits is \<open>m * 2^e\<close> with \<open>\<bar>m\<bar> < 2^p\<close>; \<open>fp_round p q\<close> is the one nearest
  to the rational \<open>q\<close>, ties going to the even significand (the IEEE 754 default
  rounding). The exponent range is left unbounded: every value rounded below lies between
  \<open>2^-12\<close> and \<open>2^64\<close>, far from overflow and from the subnormal range.
\<close>

definition pow2 :: "int \<Rightarrow> rat" where
  "pow2 k = (if 0 \<le> k then 2 ^ nat k else 1 / 2 ^ nat (- k))"

text \<open>The integer \<open>k\<close> with \<open>2^k \<le> q < 2^(k+1)\<close>, for positive \<open>q\<close>.\<close>

definition ilog2 :: "rat \<Rightarrow> int" where
  "ilog2 q = (if 1 \<le> q then bitlen \<lfloor>q\<rfloor> - 1 else - bitlen (\<lceil>1 / q\<rceil> - 1))"

definition round_ties_even :: "rat \<Rightarrow> int" where
  "round_ties_even q =
     (let f = \<lfloor>q\<rfloor>; r = q - of_int f
      in if r < 1 / 2 then f else if 1 / 2 < r then f + 1
         else if even f then f else f + 1)"

definition fp_round :: "nat \<Rightarrow> rat \<Rightarrow> rat" where
  "fp_round p q =
     (if q = 0 then 0
      else (let e = ilog2 \<bar>q\<bar> - (int p - 1)
            in of_int (round_ties_even (q / pow2 e)) * pow2 e))"

abbreviation binary32 :: "rat \<Rightarrow> rat" where "binary32 \<equiv> fp_round 24"
abbreviation binary64 :: "rat \<Rightarrow> rat" where "binary64 \<equiv> fp_round 53"

subsection \<open>CAN send loop: \<open>can_send_thread\<close>\<close>

text \<open>
  The test \<open>nanos_since_boot() - event.getLogMonoTime() < 1e9\<close>: both operands are
  \<open>uint64_t\<close>, so the difference is taken modulo \<open>2^64\<close>; it is then converted to
  \<open>double\<close> for the comparison with the literal.
\<close>

definition not_too_old :: "u64 \<Rightarrow> u64 \<Rightarrow> bool" where
  "not_too_old now logMonoTime \<longleftrightarrow>
     binary64 (of_nat (unat (now - logMonoTime))) < 1000000000"

text \<open>
  What one received message leads to (lines 249 to 262): \<open>now\<close> is the reading of
  \<open>nanos_since_boot()\<close>, \<open>logMonoTime\<close> and \<open>sendcan\<close> are the two fields of the
  decoded event. The else branch calls \<open>aux_panda->can_send\<close> without a null check.
\<close>

definition can_send_message ::
  "bool \<Rightarrow> boardd_globals \<Rightarrow> u64 \<Rightarrow> u64 \<Rightarrow> 'batch \<Rightarrow> fault + 'batch action list" where
  "can_send_message fake_send g now logMonoTime sendcan =
     (if not_too_old now logMonoTime then
        (if \<not> fake_send then
           (if main_shift g = 0 then Inr [CanSend Main sendcan]
            else if aux_connected g then Inr [CanSend Aux sendcan]
            else Inl (NullBoard Aux))
         else Inr [])
      else Inr [])"

text \<open>
  The age of a message as the specification speaks of it: the clock reading minus the
  embedded timestamp, as numbers. A batch is older than one second when that age is at
  least \<open>10^9\<close> nanoseconds.
\<close>

definition age_ns :: "u64 \<Rightarrow> u64 \<Rightarrow> int" where
  "age_ns now logMonoTime = uint now - uint logMonoTime"

definition older_than_1s :: "u64 \<Rightarrow> u64 \<Rightarrow> bool" where
  "older_than_1s now logMonoTime \<longleftrightarrow> 1000000000 \<le> age_ns now logMonoTime"

subsection \<open>Board-state loop: \<open>panda_state_thread\<close>\<close>

text \<open>
  \<open>health_t\<close> is declared in panda.h (not at hand); these are the fields the control
  flow of the loop reads, each an unsigned byte.
\<close>

record health_t =
  ignition_line :: u8
  ignition_can :: u8
  safety_model :: u8
  power_save_enabled :: u8

text \<open>
  The two shared atomics the loop writes and its two locals that live across iterations.
\<close>

record state_loop =
  ignition :: bool
  safety_setter_thread_running :: bool
  no_ignition_cnt :: u32
  ignition_last :: bool

text \<open>
  What one iteration reads from outside: the health of main, the health of aux (read only
  when aux is connected), \<open>util::time_valid(sys_time)\<close>, and the two \<open>mktime\<close>
  results in whole seconds (read only on the RTC path).
\<close>

record tick_reads =
  main_health :: health_t
  aux_health :: health_t
  sys_time_valid :: bool
  rtc_secs :: int
  sys_secs :: int

text \<open>
  \<open>difftime(mktime(&rtc_time), mktime(&sys_time))\<close> is the difference of two calendar
  times in whole seconds, held in a \<open>double\<close>; \<open>std::abs(seconds) > 1.1\<close> compares it
  with the double nearest to 1.1.
\<close>

definition rtc_differs :: "int \<Rightarrow> int \<Rightarrow> bool" where
  "rtc_differs rtc sys \<longleftrightarrow> binary64 (11 / 10) < \<bar>of_int (rtc - sys)\<bar>"

text \<open>
  One iteration of the 2 Hz loop (lines 319 to 403 and 458 to 460), in program order. The
  first aux test of \<open>!ignition\<close> (line 336) reads the flag before this iteration assigns
  it; the assignment itself (lines 340 to 344) sits inside the \<open>aux_panda != nullptr\<close>
  block. Of the published message only the \<open>ignitionLine\<close> field is kept.
\<close>

definition panda_state_tick ::
  "SafetyModelEnum \<Rightarrow> boardd_globals \<Rightarrow> bool \<Rightarrow> tick_reads \<Rightarrow> state_loop
     \<Rightarrow> state_loop \<times> 'batch action list" where
  "panda_state_tick E g spoofing_started r s =
     (let pandaState = (if spoofing_started then (main_health r)\<lparr>ignition_line := 1\<rparr>
                        else main_health r);
          pandaState_aux = aux_health r;
          c_silent =
            GetState Main #
            (if safety_model pandaState = ucast (SILENT E)
             then [SetSafetyModel Main (NO_OUTPUT E) None] else []);
          c_aux =
            (if aux_connected g then
               GetState Aux #
               (if safety_model pandaState_aux = ucast (SILENT E)
                then [SetSafetyModel Aux (NO_OUTPUT E) None] else []) @
               (if \<not> ignition s \<and> safety_model pandaState \<noteq> ucast (NO_OUTPUT E)
                then [SetSafetyModel Aux (NO_OUTPUT E) None] else [])
             else []);
          ign =
            (if aux_connected g then
               (if main_shift g = 0
                then ignition_line pandaState \<noteq> 0 \<or> ignition_can pandaState \<noteq> 0
                else ignition_line pandaState_aux \<noteq> 0 \<or> ignition_can pandaState_aux \<noteq> 0)
             else ignition s);
          cnt = (if ign then 0 else no_ignition_cnt s + 1);
          power_save_desired = \<not> ign;
          c_power =
            (if unat (power_save_enabled pandaState) \<noteq> (if power_save_desired then 1 else 0)
             then SetPowerSaving Main power_save_desired #
                  (if aux_connected g then [SetPowerSaving Aux power_save_desired] else [])
             else []);
          c_parked =
            (if \<not> ign \<and> safety_model pandaState \<noteq> ucast (NO_OUTPUT E)
             then [SetSafetyModel Main (NO_OUTPUT E) None] else []);
          running =
            (if ign \<and> \<not> ignition_last s \<and> \<not> safety_setter_thread_running s then True
             else safety_setter_thread_running s);
          c_edge =
            (if ign \<and> \<not> ignition_last s then
               ClearAll CLEAR_ON_IGNITION_ON #
               (if \<not> safety_setter_thread_running s
                then [StoreSetterRunning True, LaunchSafetySetter] else [])
             else if \<not> ign \<and> ignition_last s then [ClearAll CLEAR_ON_IGNITION_OFF]
             else []);
          c_rtc =
            (if main_has_rtc g \<and> \<not> ign \<and> unat cnt mod 120 = 1 then
               (if sys_time_valid r then
                  GetRtc Main #
                  (if rtc_differs (rtc_secs r) (sys_secs r) then [SetRtc Main] else [])
                else [])
             else []);
          c_publish =
            GetFanSpeed Main # PublishPandaState ign # SendHeartbeat Main #
            (if aux_connected g then [SendHeartbeat Aux] else [])
      in (s\<lparr>ignition := ign, safety_setter_thread_running := running,
             no_ignition_cnt := cnt, ignition_last := ign\<rparr>,
          c_silent @ c_aux @ c_power @ c_parked @ c_edge @ c_rtc @ c_publish))"

text \<open>
  Whether every occurrence of the call \<open>x\<close> in a list of calls is directly followed by
  the call \<open>y\<close>.
\<close>

fun directly_followed :: "'a \<Rightarrow> 'a \<Rightarrow> 'a list \<Rightarrow> bool" where
  "directly_followed x y [] = True"
| "directly_followed x y [a] = (a \<noteq> x)"
| "directly_followed x y (a # a' # acts) =
     ((a = x \<longrightarrow> a' = y) \<and> directly_followed x y (a' # acts))"

text \<open>The safety models commanded on one board, in order.\<close>

fun safety_models_on :: "board \<Rightarrow> 'batch action list \<Rightarrow> SafetyModel list" where
  "safety_models_on b [] = []"
| "safety_models_on b (SetSafetyModel b' m p # acts) =
     (if b' = b then m # safety_models_on b acts else safety_models_on b acts)"
| "safety_models_on b (_ # acts) = safety_models_on b acts"

subsection \<open>Safety-setter task: \<open>safety_setter_thread\<close>\<close>

text \<open>
  The task polls. What one pass through a polling loop reads: the exit flag, the
  \<open>connected\<close> flag of main, and the parameter store (keys \<open>CarVin\<close>,
  \<open>ControlsReady\<close>, \<open>CarParams\<close>). A run of the task is given the list of these
  readings, one per pass; when the list ends the task is still polling.
\<close>

record poll =
  do_exit :: bool
  main_connected :: bool
  CarVin :: string
  ControlsReady :: bool
  CarParams :: string

text \<open>
  How a polling loop is left: by \<open>break\<close> with the value read and the readings not yet
  consumed, by the early \<open>return\<close>, by a failed \<open>assert\<close> (the process aborts;
  assertions are taken to be compiled in), or not yet.
\<close>

datatype loop_exit = Break string "poll list" | Return | Abort | Pending

text \<open>The first loop, lines 59 to 73.\<close>

fun vin_loop :: "poll list \<Rightarrow> loop_exit" where
  "vin_loop [] = Pending"
| "vin_loop (p # ps) =
     (if do_exit p \<or> \<not> main_connected p then Return
      else if 0 < length (CarVin p) then
        (if length (CarVin p) = 17 then Break (CarVin p) ps else Abort)
      else vin_loop ps)"

text \<open>The second loop, lines 81 to 92.\<close>

fun params_loop :: "poll list \<Rightarrow> loop_exit" where
  "params_loop [] = Pending"
| "params_loop (p # ps) =
     (if do_exit p \<or> \<not> main_connected p then Return
      else if ControlsReady p \<and> 0 < length (CarParams p) then Break (CarParams p) ps
      else params_loop ps)"

datatype setter_end = Completed | CutShort | AssertFailed | StillPolling

record 'batch setter_run =
  commands :: "'batch action list"
  running_flag :: bool
  ending :: setter_end

text \<open>
  The whole task (lines 50 to 109). \<open>decode\<close> stands for the capnp reader of
  \<open>CarParams\<close> (not at hand): it gives the safety model and the safety param of the
  stored bytes. \<open>running_flag\<close> is \<open>safety_setter_thread_running\<close>, true when the
  task starts; every \<open>return\<close> of the task clears it.
\<close>

definition safety_setter_thread ::
  "SafetyModelEnum \<Rightarrow> (string \<Rightarrow> SafetyModel \<times> int) \<Rightarrow> boardd_globals \<Rightarrow> poll list
     \<Rightarrow> 'batch setter_run" where
  "safety_setter_thread E decode g polls =
     (let c_diag = SetSafetyModel Main (ELM327 E) None #
                   (if aux_connected g then [SetSafetyModel Aux (ELM327 E) None] else [])
      in case vin_loop polls of
           Return \<Rightarrow> \<lparr>commands = c_diag, running_flag = False, ending = CutShort\<rparr>
         | Abort \<Rightarrow> \<lparr>commands = c_diag, running_flag = True, ending = AssertFailed\<rparr>
         | Pending \<Rightarrow> \<lparr>commands = c_diag, running_flag = True, ending = StillPolling\<rparr>
         | Break value_vin polls' \<Rightarrow>
             (let c_locked = c_diag @ SetSafetyModel Main (ELM327 E) (Some 1) #
                             (if aux_connected g then [SetSafetyModel Aux (ELM327 E) (Some 1)]
                              else [])
              in case params_loop polls' of
                   Return \<Rightarrow>
                     \<lparr>commands = c_locked, running_flag = False, ending = CutShort\<rparr>
                 | Abort \<Rightarrow>
                     \<lparr>commands = c_locked, running_flag = True, ending = AssertFailed\<rparr>
                 | Pending \<Rightarrow>
                     \<lparr>commands = c_locked, running_flag = True, ending = StillPolling\<rparr>
                 | Break params _ \<Rightarrow>
                     (let (model, param) = decode params
                      in \<lparr>commands = c_locked @ SetUnsafeMode Main 0 #
                                      SetSafetyModel Main model (Some param) #
                                      (if aux_connected g
                                       then [SetSafetyModel Aux model (Some param)] else []),
                          running_flag = False, ending = Completed\<rparr>)))"

text \<open>
  The commands of the three stages of a run: on entry, after the VIN was read, and after
  \<open>CarParams\<close> was read (for the safety model and param decoded from it). Every
  \<open>set_safety_model\<close> goes to main and then, when aux is connected, to aux. A run that
  goes through both loops makes all three, in this order.
\<close>

definition to_boards :: "boardd_globals \<Rightarrow> (board \<Rightarrow> 'batch action) \<Rightarrow> 'batch action list" where
  "to_boards g c = c Main # (if aux_connected g then [c Aux] else [])"

definition diag_commands :: "SafetyModelEnum \<Rightarrow> boardd_globals \<Rightarrow> 'batch action list" where
  "diag_commands E g = to_boards g (\<lambda>b. SetSafetyModel b (ELM327 E) None)"

definition locked_commands :: "SafetyModelEnum \<Rightarrow> boardd_globals \<Rightarrow> 'batch action list" where
  "locked_commands E g = to_boards g (\<lambda>b. SetSafetyModel b (ELM327 E) (Some 1))"

definition target_commands :: "boardd_globals \<Rightarrow> SafetyModel \<times> int \<Rightarrow> 'batch action list" where
  "target_commands g target =
     SetUnsafeMode Main 0 #
     to_boards g (\<lambda>b. SetSafetyModel b (fst target) (Some (snd target)))"

definition full_sequence ::
  "SafetyModelEnum \<Rightarrow> boardd_globals \<Rightarrow> SafetyModel \<times> int \<Rightarrow> 'batch action list" where
  "full_sequence E g target =
     diag_commands E g @ locked_commands E g @ target_commands g target"

text \<open>The readings on which a loop keeps polling, and those on which it breaks.\<close>

definition alive :: "poll \<Rightarrow> bool" where
  "alive p \<longleftrightarrow> \<not> do_exit p \<and> main_connected p"

definition no_vin :: "poll \<Rightarrow> bool" where
  "no_vin p \<longleftrightarrow> alive p \<and> CarVin p = []"

definition has_vin :: "poll \<Rightarrow> bool" where
  "has_vin p \<longleftrightarrow> alive p \<and> length (CarVin p) = 17"

definition not_ready :: "poll \<Rightarrow> bool" where
  "not_ready p \<longleftrightarrow> alive p \<and> \<not> (ControlsReady p \<and> CarParams p \<noteq> [])"

definition ready :: "poll \<Rightarrow> bool" where
  "ready p \<longleftrightarrow> alive p \<and> ControlsReady p \<and> CarParams p \<noteq> []"

subsection \<open>The state loop and the safety-setter tasks together\<close>

text \<open>
  The board-state loop launches safety-setter tasks; each task ends by clearing
  \<open>safety_setter_thread_running\<close>. The events of a run are the iterations of the state
  loop and the ends of launched tasks, interleaved in any order; \<open>live_setters\<close> counts
  the tasks launched and not yet ended.
\<close>

record daemon =
  loop :: state_loop
  live_setters :: nat

datatype event = Tick tick_reads | SetterEnds

definition launches :: "'batch action list \<Rightarrow> nat" where
  "launches acts = length (filter (\<lambda>a. a = LaunchSafetySetter) acts)"

fun daemon_step ::
  "SafetyModelEnum \<Rightarrow> boardd_globals \<Rightarrow> bool \<Rightarrow> daemon \<Rightarrow> event \<Rightarrow> daemon" where
  "daemon_step E g spoofing_started d (Tick r) =
     (let (s', acts) = (panda_state_tick E g spoofing_started r (loop d)
                          :: state_loop \<times> unit action list)
      in \<lparr>loop = s', live_setters = live_setters d + launches acts\<rparr>)"
| "daemon_step E g spoofing_started d SetterEnds =
     (if live_setters d = 0 then d
      else \<lparr>loop = (loop d)\<lparr>safety_setter_thread_running := False\<rparr>,
            live_setters = live_setters d - 1\<rparr>)"

definition daemon_run ::
  "SafetyModelEnum \<Rightarrow> boardd_globals \<Rightarrow> bool \<Rightarrow> daemon \<Rightarrow> event list \<Rightarrow> daemon" where
  "daemon_run E g spoofing_started d evs = foldl (daemon_step E g spoofing_started) d evs"

text \<open>
  The flag tells whether a task is live: this is what every event of a run preserves.
\<close>

definition setter_invariant :: "daemon \<Rightarrow> bool" where
  "setter_invariant d \<longleftrightarrow>
     live_setters d = (if safety_setter_thread_running (loop d) then 1 else 0)"

text \<open>The values the globals and the loop's locals start with.\<close>

definition boot :: daemon where
  "boot = \<lparr>loop = \<lparr>ignition = False, safety_setter_thread_running = False,
                     no_ignition_cnt = 0, ignition_last = False\<rparr>,
           live_setters = 0\<rparr>"

text \<open>
  Concrete values for running the model: an instance of the enumerants, a one-board and a
  two-board configuration, a health reading of a parked car in \<open>NO_OUTPUT\<close>, the
  readings of one iteration built from two health readings, three readings of the
  parameter store, and a decoder that reads safety model 1 with param 0 from any bytes.
\<close>

definition enum_instance :: SafetyModelEnum where
  "enum_instance = \<lparr>SILENT = 0, ELM327 = 3, NO_OUTPUT = 19\<rparr>"

definition one_board :: boardd_globals where
  "one_board = \<lparr>main_shift = 0, aux_connected = False, main_has_rtc = True\<rparr>"

definition two_boards :: boardd_globals where
  "two_boards = \<lparr>main_shift = 0, aux_connected = True, main_has_rtc = True\<rparr>"

definition parked :: health_t where
  "parked = \<lparr>ignition_line = 0, ignition_can = 0, safety_model = 19, power_save_enabled = 1\<rparr>"

definition reads_of :: "health_t \<Rightarrow> health_t \<Rightarrow> tick_reads" where
  "reads_of hm ha = \<lparr>main_health = hm, aux_health = ha, sys_time_valid = True,
                      rtc_secs = 1000, sys_secs = 1002\<rparr>"

definition quiet :: poll where
  "quiet = \<lparr>do_exit = False, main_connected = True, CarVin = [], ControlsReady = False,
            CarParams = []\<rparr>"

definition vin_read :: poll where
  "vin_read = quiet\<lparr>CarVin := ''1HGCM82633A004352''\<rparr>"

definition params_read :: poll where
  "params_read = quiet\<lparr>ControlsReady := True, CarParams := ''p''\<rparr>"

definition decode_instance :: "string \<Rightarrow> SafetyModel \<times> int" where
  "decode_instance bytes = (1, 0)"

subsection \<open>GPS loop: \<open>pigeon_thread\<close>\<close>

text \<open>
  Modelled from the spec: the constants of ublox_msg.h, which is not at hand. The
  specification gives the two-byte preamble \<open>{0xB5, 0x62}\<close>, the navigation class
  \<open>0x01\<close> and the receiver-manager class \<open>0x02\<close>.
\<close>

definition PREAMBLE1 :: u8 where "PREAMBLE1 = 0xB5"
definition PREAMBLE2 :: u8 where "PREAMBLE2 = 0x62"
definition CLASS_NAV :: u8 where "CLASS_NAV = 0x01"
definition CLASS_RXM :: u8 where "CLASS_RXM = 0x02"

text \<open>
  The timeout table \<open>cls_max_dt\<close>. The source keeps it in an unordered map; the order
  of its two entries only fixes the order of two log lines.
\<close>

definition cls_max_dt :: "(u8 \<times> int) list" where
  "cls_max_dt = [(CLASS_NAV, 900000000), (CLASS_RXM, 900000000)]"

text \<open>
  The locals that live across iterations: \<open>last_recv_time\<close> (an unordered map read with
  \<open>operator[]\<close>, so an absent class reads as 0) and \<open>ignition_last\<close>.
\<close>

record pigeon_state =
  last_recv_time :: "u8 \<Rightarrow> u64"
  pigeon_ignition_last :: bool

text \<open>
  What one iteration reads: the bytes received and the clock, which is read once when a
  header is parsed, once for each class of the timeout table, and once when the receiver
  is initialised.
\<close>

record pigeon_reads =
  recv :: "u8 list"
  t_header :: u64
  t_check :: "u8 \<Rightarrow> u64"
  t_init :: u64

datatype pigeon_action =
    LogTimeout u8
  | LogInvalid
  | PublishRaw "u8 list"
  | PigeonInit
  | PigeonStop
  | PigeonSetPower bool

text \<open>
  One iteration (lines 558 to 609). The shared \<open>ignition\<close> flag is read several times
  in an iteration; it is written by the state loop only every 500 ms, and the iteration
  is given the one value \<open>ign\<close> for all its reads. The assignment
  \<open>need_reset = true\<close> of the timeout check is commented out in the source; the one of
  the null-byte check is not. The age \<open>dt\<close> is a difference of two signed 64-bit
  values.
\<close>

definition pigeon_iteration ::
  "bool \<Rightarrow> pigeon_reads \<Rightarrow> pigeon_state \<Rightarrow> pigeon_state \<times> pigeon_action list" where
  "pigeon_iteration ign r s =
     (let seen =
            (if ign \<and> 3 \<le> length (recv r) then
               (if recv r ! 0 = PREAMBLE1 \<and> recv r ! 1 = PREAMBLE2 then
                  (let msg_cls = recv r ! 2; t = t_header r
                   in if last_recv_time s msg_cls < t then (last_recv_time s)(msg_cls := t)
                      else last_recv_time s)
                else last_recv_time s)
             else last_recv_time s);
          c_timeout =
            concat (map (\<lambda>(msg_cls, max_dt).
                      (let dt = sint (t_check r msg_cls) - sint (seen msg_cls)
                       in if pigeon_ignition_last s \<and> ign \<and> max_dt < dt
                          then [LogTimeout msg_cls] else []))
                    cls_max_dt);
          need_reset = (ign \<and> 0 < length (recv r) \<and> recv r ! 0 = 0);
          c_invalid = (if need_reset then [LogInvalid] else []);
          c_publish = (if 0 < length (recv r) then [PublishRaw (recv r)] else []);
          init = ((ign \<and> \<not> pigeon_ignition_last s) \<or> need_reset);
          c_edge =
            (if init then [PigeonInit]
             else if \<not> ign \<and> pigeon_ignition_last s then [PigeonStop, PigeonSetPower False]
             else []);
          primed =
            (if init then
               (let t = t_init r + 10000000000
                in fold (\<lambda>(msg_cls, dt) m. m(msg_cls := t)) cls_max_dt seen)
             else seen)
      in (\<lparr>last_recv_time = primed, pigeon_ignition_last = ign\<rparr>,
          c_timeout @ c_invalid @ c_publish @ c_edge))"

text \<open>
  Concrete values for running the loop: the car is on and was on in the iteration before,
  nothing was ever received, and the receiver hands over a single null byte.
\<close>

definition steady_on :: pigeon_state where
  "steady_on = \<lparr>last_recv_time = (\<lambda>_. 0), pigeon_ignition_last = True\<rparr>"

definition null_byte_reads :: pigeon_reads where
  "null_byte_reads = \<lparr>recv = [0], t_header = 5, t_check = (\<lambda>_. 6), t_init = 7\<rparr>"

subsection \<open>Hardware-control loop: the IR power of \<open>hardware_control_thread\<close>\<close>

text \<open>
  The IR power is computed in floating point: \<open>MIN_IR_POWER\<close> and \<open>MAX_IR_POWER\<close> are
  \<open>float\<close> constants, so the conversion of the integer operands, the product, the
  quotient and the sum of line 521 are binary32 operations; the factor \<open>100.0\<close> is a
  \<open>double\<close>, so the last product is a binary64 operation; the assignment to the
  \<open>uint16_t\<close> \<open>ir_pwr\<close> drops the fraction.
\<close>

definition MAX_IR_POWER :: rat where "MAX_IR_POWER = 1 / 2"
definition MIN_IR_POWER :: rat where "MIN_IR_POWER = 0"
definition CUTOFF_IL :: int where "CUTOFF_IL = 200"
definition SATURATE_IL :: int where "SATURATE_IL = 1600"

text \<open>Conversion of a non-negative double to \<open>uint16_t\<close>: the fraction is dropped.\<close>

definition to_uint16 :: "rat \<Rightarrow> u16" where
  "to_uint16 q = word_of_int \<lfloor>q\<rfloor>"

text \<open>
  Lines 516 to 522, for \<open>cur_integ_lines\<close> as read from the camera state (no low-pass
  filter): the \<open>float\<close> interpolation of line 521, the \<open>double\<close> on the right-hand
  side of the three assignments, and the value \<open>ir_pwr\<close> holds after the assignment.
\<close>

definition interpolated :: "int \<Rightarrow> rat" where
  "interpolated cur_integ_lines =
     binary32 (MIN_IR_POWER +
       binary32 (binary32 (binary32 (of_int (cur_integ_lines - CUTOFF_IL)) *
                           binary32 (MAX_IR_POWER - MIN_IR_POWER)) /
                 binary32 (of_int (SATURATE_IL - CUTOFF_IL))))"

definition ir_pwr_double :: "int \<Rightarrow> rat" where
  "ir_pwr_double cur_integ_lines =
     (if cur_integ_lines \<le> CUTOFF_IL then binary64 (100 * MIN_IR_POWER)
      else if SATURATE_IL < cur_integ_lines then binary64 (100 * MAX_IR_POWER)
      else binary64 (100 * interpolated cur_integ_lines))"

definition ir_pwr_of :: "int \<Rightarrow> u16" where
  "ir_pwr_of cur_integ_lines = to_uint16 (ir_pwr_double cur_integ_lines)"

text \<open>
  The formula as the specification words it, in exact arithmetic: zero up to the cutoff,
  50 above saturation, and in between \<open>100 * (0.5 * (integLines - 200) / 1400)\<close>, as a whole
  percentage.
\<close>

definition ir_percent_exact :: "int \<Rightarrow> int" where
  "ir_percent_exact integLines =
     (if integLines \<le> 200 then 0
      else if 1600 < integLines then 50
      else \<lfloor>100 * ((1 / 2) * of_int (integLines - 200) / 1400 :: rat)\<rfloor>)"

section \<open>Properties\<close>

subsection \<open>Rounding is monotone\<close>

lemma pow2_powi: "pow2 k = 2 powi k"
proof (cases "0 \<le> k")
  case True
  then show ?thesis unfolding pow2_def power_int_def by simp
next
  case False
  have "inverse (2::rat) ^ nat (- k) = 1 / 2 ^ nat (- k)"
    by (metis power_inverse inverse_eq_divide)
  with False show ?thesis unfolding pow2_def power_int_def by simp
qed

lemma pow2_pos: "0 < pow2 k"
  by (simp add: pow2_powi)

lemma pow2_add: "pow2 (a + b) = pow2 a * pow2 b"
  by (simp add: pow2_powi power_int_add)

lemma pow2_mono: "a \<le> b \<Longrightarrow> pow2 a \<le> pow2 b"
  by (simp add: pow2_powi power_int_increasing)

lemma pow2_strict_mono: "a < b \<Longrightarrow> pow2 a < pow2 b"
  by (simp add: pow2_powi power_int_strict_increasing)

lemma pow2_nat: "pow2 (int n) = 2 ^ n"
  by (simp add: pow2_def)

lemma ilog2_bounds:
  assumes "0 < q"
  shows "pow2 (ilog2 q) \<le> q \<and> q < pow2 (ilog2 q + 1)"
proof (cases "1 \<le> q")
  case True
  define n where "n = \<lfloor>q\<rfloor>"
  have n: "0 < n" using True by (simp add: n_def)
  have k: "ilog2 q = bitlen n - 1" using True by (simp add: ilog2_def n_def)
  have b1: "1 \<le> bitlen n"
    using n bitlen_nonneg [of n] bitlen_eq_zero_iff [of n] by linarith
  from bitlen_bounds [OF n] have lo: "2 ^ nat (bitlen n - 1) \<le> n" and hi: "n < 2 ^ nat (bitlen n)"
    by simp_all
  have "pow2 (bitlen n - 1) = of_int (2 ^ nat (bitlen n - 1))"
    using b1 by (simp add: pow2_def)
  also have "\<dots> \<le> of_int n" using lo by (simp only: of_int_le_iff)
  also have "\<dots> \<le> q" by (simp add: n_def)
  finally have l: "pow2 (ilog2 q) \<le> q" by (simp add: k)
  have "n + 1 \<le> 2 ^ nat (bitlen n)" using hi by simp
  then have "(of_int (n + 1) :: rat) \<le> of_int (2 ^ nat (bitlen n))" by (simp only: of_int_le_iff)
  moreover have "q < of_int (n + 1)" using floor_correct [of q] by (simp add: n_def)
  moreover have "pow2 (bitlen n) = of_int (2 ^ nat (bitlen n))"
    using b1 by (simp add: pow2_def)
  ultimately have "q < pow2 (ilog2 q + 1)" by (simp add: k)
  with l show ?thesis ..
next
  case False
  define y where "y = 1 / q"
  have y1: "1 < y" using False assms by (simp add: y_def)
  define n where "n = \<lceil>y\<rceil> - 1"
  have n: "0 < n" using y1 by (simp add: n_def)
  have ny: "of_int n < y" by (simp add: n_def) linarith
  have yn: "y \<le> of_int (n + 1)" by (simp add: n_def)
  have k: "ilog2 q = - bitlen n" using False by (simp add: ilog2_def n_def y_def)
  have b1: "1 \<le> bitlen n"
    using n bitlen_nonneg [of n] bitlen_eq_zero_iff [of n] by linarith
  from bitlen_bounds [OF n] have lo: "2 ^ nat (bitlen n - 1) \<le> n" and hi: "n < 2 ^ nat (bitlen n)"
    by simp_all
  have "n + 1 \<le> 2 ^ nat (bitlen n)" using hi by simp
  then have "(of_int (n + 1) :: rat) \<le> of_int (2 ^ nat (bitlen n))" by (simp only: of_int_le_iff)
  with yn have "y \<le> of_int (2 ^ nat (bitlen n))" by (rule order_trans)
  also have "\<dots> = 2 ^ nat (bitlen n)" by simp
  finally have yhi: "y \<le> 2 ^ nat (bitlen n)" .
  have "(2::rat) ^ nat (bitlen n - 1) = of_int (2 ^ nat (bitlen n - 1))" by simp
  also have "\<dots> \<le> of_int n" using lo by (simp only: of_int_le_iff)
  also have "\<dots> < y" by (rule ny)
  finally have ylo: "2 ^ nat (bitlen n - 1) < y" .
  have q: "q = 1 / y" by (simp add: y_def)
  have "pow2 (- bitlen n) = 1 / 2 ^ nat (bitlen n)" using b1 by (simp add: pow2_def)
  also have "\<dots> \<le> 1 / y" using yhi y1 by (simp add: frac_le)
  finally have "pow2 (- bitlen n) \<le> 1 / y" .
  then have l: "pow2 (ilog2 q) \<le> q" by (simp only: k flip: q)
  have "1 / y < 1 / 2 ^ nat (bitlen n - 1)" using ylo by (simp add: frac_less2)
  moreover have "pow2 (- bitlen n + 1) = 1 / 2 ^ nat (bitlen n - 1)"
    using b1 by (cases "bitlen n = 1") (auto simp add: pow2_def)
  ultimately have "1 / y < pow2 (- bitlen n + 1)" by simp
  then have "q < pow2 (ilog2 q + 1)" by (simp only: k flip: q)
  with l show ?thesis ..
qed

lemma ilog2_mono:
  assumes "0 < x" and "x \<le> y"
  shows "ilog2 x \<le> ilog2 y"
proof (rule ccontr)
  assume "\<not> ilog2 x \<le> ilog2 y"
  then have "ilog2 y + 1 \<le> ilog2 x" by simp
  then have "pow2 (ilog2 y + 1) \<le> pow2 (ilog2 x)" by (rule pow2_mono)
  also have "\<dots> \<le> x" using ilog2_bounds [OF assms(1)] by simp
  also have "\<dots> \<le> y" by (rule assms(2))
  finally show False using ilog2_bounds [of y] assms by simp
qed

lemma rte_bounds: "\<lfloor>q\<rfloor> \<le> round_ties_even q \<and> round_ties_even q \<le> \<lfloor>q\<rfloor> + 1"
  by (simp add: round_ties_even_def Let_def)

lemma rte_of_int: "round_ties_even (of_int n) = n"
  by (simp add: round_ties_even_def Let_def)

lemma rte_mono:
  assumes "x \<le> y"
  shows "round_ties_even x \<le> round_ties_even y"
proof (cases "\<lfloor>x\<rfloor> = \<lfloor>y\<rfloor>")
  case True
  then show ?thesis using assms by (auto simp add: round_ties_even_def Let_def)
next
  case False
  then have "\<lfloor>x\<rfloor> + 1 \<le> \<lfloor>y\<rfloor>" using floor_mono [OF assms] by simp
  then show ?thesis using rte_bounds [of x] rte_bounds [of y] by linarith
qed


lemma fp_round_pos_eq:
  "0 < q \<Longrightarrow>
     fp_round p q = of_int (round_ties_even (q / pow2 (ilog2 q - (int p - 1)))) *
                    pow2 (ilog2 q - (int p - 1))"
  by (simp add: fp_round_def Let_def)

lemma significand_bounds:
  assumes "0 < p" and "0 < q"
  defines "e \<equiv> ilog2 q - (int p - 1)"
  shows "2 ^ (p - 1) \<le> round_ties_even (q / pow2 e) \<and> round_ties_even (q / pow2 e) \<le> 2 ^ p"
proof -
  have k: "ilog2 q = e + (int p - 1)" by (simp add: e_def)
  have lo: "pow2 (e + (int p - 1)) \<le> q" and hi: "q < pow2 (e + int p)"
    using ilog2_bounds [OF assms(2)] unfolding k by (simp_all add: add.assoc)
  have "pow2 (int p - 1) \<le> q / pow2 e"
    using lo pow2_pos [of e] by (simp add: pow2_add pos_le_divide_eq mult.commute)
  moreover have "pow2 (int p - 1) = of_int (2 ^ (p - 1))"
    using assms(1) pow2_nat [of "p - 1"] by (simp add: of_nat_diff)
  ultimately have "of_int (2 ^ (p - 1)) \<le> q / pow2 e" by simp
  then have "round_ties_even (of_int (2 ^ (p - 1))) \<le> round_ties_even (q / pow2 e)"
    by (rule rte_mono)
  then have a: "2 ^ (p - 1) \<le> round_ties_even (q / pow2 e)" by (simp only: rte_of_int)
  have "q / pow2 e \<le> pow2 (int p)"
    using hi pow2_pos [of e] by (simp add: pow2_add pos_divide_le_eq mult.commute)
  moreover have "pow2 (int p) = of_int (2 ^ p)" by (simp add: pow2_nat)
  ultimately have "q / pow2 e \<le> of_int (2 ^ p)" by simp
  then have "round_ties_even (q / pow2 e) \<le> round_ties_even (of_int (2 ^ p))"
    by (rule rte_mono)
  then have b: "round_ties_even (q / pow2 e) \<le> 2 ^ p" by (simp only: rte_of_int)
  from a b show ?thesis ..
qed

lemma fp_round_mono_pos:
  assumes "0 < p" and "0 < x" and "x \<le> y"
  shows "fp_round p x \<le> fp_round p y"
proof -
  define ex where "ex = ilog2 x - (int p - 1)"
  define ey where "ey = ilog2 y - (int p - 1)"
  define mx where "mx = round_ties_even (x / pow2 ex)"
  define my where "my = round_ties_even (y / pow2 ey)"
  have y: "0 < y" using assms(2,3) by simp
  have fx: "fp_round p x = of_int mx * pow2 ex"
    using fp_round_pos_eq [OF assms(2)] by (simp add: mx_def ex_def)
  have fy: "fp_round p y = of_int my * pow2 ey"
    using fp_round_pos_eq [OF y] by (simp add: my_def ey_def)
  have le: "ex \<le> ey" using ilog2_mono [OF assms(2,3)] by (simp add: ex_def ey_def)
  show ?thesis
  proof (cases "ex = ey")
    case True
    have "x / pow2 ey \<le> y / pow2 ey"
      using assms(3) pow2_pos [of ey] by (simp add: divide_right_mono)
    then have "mx \<le> my" unfolding mx_def my_def True by (rule rte_mono)
    then have "(of_int mx :: rat) \<le> of_int my" by (simp only: of_int_le_iff)
    then show ?thesis unfolding fx fy True
      using pow2_pos [of ey] by (simp add: mult_right_mono)
  next
    case False
    then have lt: "ex + 1 \<le> ey" using le by simp
    have "mx \<le> 2 ^ p"
      using significand_bounds [OF assms(1,2)] by (simp add: mx_def ex_def)
    then have "(of_int mx :: rat) \<le> of_int (2 ^ p)" by (simp only: of_int_le_iff)
    then have "of_int mx * pow2 ex \<le> of_int (2 ^ p) * pow2 ex"
      using pow2_pos [of ex] by (simp add: mult_right_mono)
    also have "\<dots> = pow2 (int p + ex)" by (simp add: pow2_add pow2_nat)
    also have "\<dots> \<le> pow2 (int p - 1 + ey)" using lt by (intro pow2_mono) simp
    also have "\<dots> = of_int (2 ^ (p - 1)) * pow2 ey"
      using assms(1) pow2_nat [of "p - 1"] by (simp add: pow2_add of_nat_diff)
    also have "\<dots> \<le> of_int my * pow2 ey"
    proof -
      have "2 ^ (p - 1) \<le> my"
        using significand_bounds [OF assms(1) y] by (simp add: my_def ey_def)
      then have "(of_int (2 ^ (p - 1)) :: rat) \<le> of_int my" by (simp only: of_int_le_iff)
      then show ?thesis using pow2_pos [of ey] by (simp add: mult_right_mono)
    qed
    finally show ?thesis unfolding fx fy .
  qed
qed

lemma fp_round_pos:
  assumes "0 < p" and "0 < q"
  shows "0 < fp_round p q"
proof -
  have "(0::int) < 2 ^ (p - 1)" by simp
  also have "\<dots> \<le> round_ties_even (q / pow2 (ilog2 q - (int p - 1)))"
    using significand_bounds [OF assms] by simp
  finally have "(0::rat) < of_int (round_ties_even (q / pow2 (ilog2 q - (int p - 1))))"
    by (simp only: of_int_0_less_iff)
  then show ?thesis
    unfolding fp_round_pos_eq [OF assms(2)]
    using pow2_pos [of "ilog2 q - (int p - 1)"] by (simp add: zero_less_mult_iff)
qed

lemma fp_round_mono:
  assumes "0 < p" and "0 \<le> x" and "x \<le> y"
  shows "fp_round p x \<le> fp_round p y"
proof (cases "x = 0")
  case True
  show ?thesis
  proof (cases "y = 0")
    case True
    with \<open>x = 0\<close> show ?thesis by simp
  next
    case False
    then have "0 < y" using assms(2,3) by simp
    then have "0 < fp_round p y" using assms(1) by (simp add: fp_round_pos)
    moreover have "fp_round p x = 0" using True by (simp add: fp_round_def)
    ultimately show ?thesis by simp
  qed
next
  case False
  then have "0 < x" using assms(2) by simp
  then show ?thesis using assms(1,3) by (simp add: fp_round_mono_pos)
qed

lemma fp_round_nonneg: "0 < p \<Longrightarrow> 0 \<le> q \<Longrightarrow> 0 \<le> fp_round p q"
  using fp_round_mono [of p 0 q] by (simp add: fp_round_def)

text \<open>
  The rounded value is within half a unit in the last place of the exact one, and its
  significand has \<open>p\<close> bits (lemma \<open>significand_bounds\<close>).
\<close>

lemma rte_error: "\<bar>of_int (round_ties_even q) - q\<bar> \<le> 1 / 2"
proof -
  have "of_int \<lfloor>q\<rfloor> \<le> q" "q < of_int \<lfloor>q\<rfloor> + 1" by linarith+
  then show ?thesis by (auto simp add: round_ties_even_def Let_def abs_le_iff)
qed

lemma fp_round_error:
  assumes "0 < q"
  shows "\<bar>fp_round p q - q\<bar> \<le> pow2 (ilog2 q - (int p - 1)) / 2"
proof -
  define e where "e = ilog2 q - (int p - 1)"
  have pe: "0 < pow2 e" by (rule pow2_pos)
  have "fp_round p q - q = (of_int (round_ties_even (q / pow2 e)) - q / pow2 e) * pow2 e"
    using pe by (simp add: fp_round_pos_eq [OF assms] e_def left_diff_distrib)
  then have "\<bar>fp_round p q - q\<bar> = \<bar>of_int (round_ties_even (q / pow2 e)) - q / pow2 e\<bar> * pow2 e"
    using pe by (simp add: abs_mult)
  also have "\<dots> \<le> (1 / 2) * pow2 e"
    using rte_error [of "q / pow2 e"] pe by (intro mult_right_mono) simp_all
  finally show ?thesis by (simp add: e_def)
qed

subsection \<open>The three comparisons with a double\<close>

lemma double_of_1e9: "binary64 1000000000 = 1000000000"
  by code_simp

lemma double_below_1e9: "binary64 999999999 = 999999999"
  by code_simp

lemma double_1_1_between: "1 < binary64 (11 / 10) \<and> binary64 (11 / 10) < 2"
  by code_simp

lemma u64_as_double_less_1e9:
  "binary64 (of_nat n) < 1000000000 \<longleftrightarrow> n < 1000000000"
proof
  assume a: "binary64 (of_nat n) < 1000000000"
  show "n < 1000000000"
  proof (rule ccontr)
    assume "\<not> n < 1000000000"
    then have "(1000000000::rat) \<le> of_nat n" by simp
    then have "binary64 1000000000 \<le> binary64 (of_nat n)"
      by (intro fp_round_mono) simp_all
    then show False using a by (simp add: double_of_1e9)
  qed
next
  assume "n < 1000000000"
  then have "(of_nat n :: rat) \<le> 999999999" by simp
  then have "binary64 (of_nat n) \<le> binary64 999999999"
    by (intro fp_round_mono) simp_all
  then show "binary64 (of_nat n) < 1000000000" by (simp add: double_below_1e9)
qed

lemma not_too_old_iff: "not_too_old now logMonoTime \<longleftrightarrow> unat (now - logMonoTime) < 1000000000"
  unfolding not_too_old_def by (rule u64_as_double_less_1e9)

lemma rtc_differs_iff: "rtc_differs rtc sys \<longleftrightarrow> 2 \<le> \<bar>rtc - sys\<bar>"
proof -
  have "binary64 (11 / 10) < \<bar>of_int (rtc - sys)\<bar> \<longleftrightarrow> (2::rat) \<le> of_int \<bar>rtc - sys\<bar>"
  proof
    assume "binary64 (11 / 10) < \<bar>of_int (rtc - sys)\<bar>"
    then have "(1::rat) < of_int \<bar>rtc - sys\<bar>" using double_1_1_between by simp
    then have "1 < \<bar>rtc - sys\<bar>" by (simp only: of_int_1_less_iff)
    then have "2 \<le> \<bar>rtc - sys\<bar>" by simp
    then show "(2::rat) \<le> of_int \<bar>rtc - sys\<bar>" by linarith
  next
    assume "(2::rat) \<le> of_int \<bar>rtc - sys\<bar>"
    then show "binary64 (11 / 10) < \<bar>of_int (rtc - sys)\<bar>" using double_1_1_between by simp
  qed
  also have "\<dots> \<longleftrightarrow> 2 \<le> \<bar>rtc - sys\<bar>" by linarith
  finally show ?thesis by (simp only: rtc_differs_def)
qed

lemma rtc_differs_exact:
  "rtc_differs rtc sys \<longleftrightarrow> (11 / 10 :: rat) < \<bar>of_int rtc - of_int sys\<bar>"
proof -
  have "(11 / 10 :: rat) < of_int \<bar>rtc - sys\<bar> \<longleftrightarrow> 2 \<le> \<bar>rtc - sys\<bar>"
  proof
    assume "(11 / 10 :: rat) < of_int \<bar>rtc - sys\<bar>"
    then have "(1::rat) < of_int \<bar>rtc - sys\<bar>" by simp
    then have "1 < \<bar>rtc - sys\<bar>" by (simp only: of_int_1_less_iff)
    then show "2 \<le> \<bar>rtc - sys\<bar>" by simp
  next
    assume "2 \<le> \<bar>rtc - sys\<bar>"
    then have "(2::rat) \<le> of_int \<bar>rtc - sys\<bar>" by linarith
    then show "(11 / 10 :: rat) < of_int \<bar>rtc - sys\<bar>" by simp
  qed
  then show ?thesis by (simp add: rtc_differs_iff)
qed

subsection \<open>CAN send loop\<close>

lemma unat_sub_past: "l \<le> n \<Longrightarrow> int (unat (n - l)) = age_ns n l" for n l :: u64
proof -
  assume le: "l \<le> n"
  then have "unat l \<le> unat n" by (simp add: word_le_nat_alt)
  moreover have "unat (n - l) = unat n - unat l" using le by (rule unat_sub)
  ultimately show ?thesis unfolding age_ns_def uint_nat by linarith
qed

lemma unat_sub_future: "n < l \<Longrightarrow> unat (n - l) = 2 ^ 64 - unat (l - n)" for n l :: u64
proof -
  assume "n < l"
  then have lt: "unat n < unat l" by (simp add: word_less_nat_alt)
  then have le: "n \<le> l" by (simp add: word_le_nat_alt)
  have a: "unat (n - l) = unat n + 2 ^ 64 - unat l"
    using lt by (simp add: unat_sub_if_size word_size)
  have b: "unat (l - n) = unat l - unat n" using le by (rule unat_sub)
  have "unat l < 2 ^ 64" using unsigned_less [of l, where 'a = nat] by simp
  then show ?thesis using a b lt by linarith
qed

text \<open>
  Claim C2, as the code has it. For a message whose timestamp is not ahead of the clock:
  when it is at least one second old nothing is sent to any board; otherwise, with
  fake-send off, the batch goes to main if \<open>main_shift\<close> is 0 and else to aux (which the
  code dereferences without a null check, so aux has to be connected). A timestamp ahead
  of the clock is not "older than one second", and yet its batch is dropped: that case is
  the counterexample below.
\<close>

theorem can_send_past_timestamp:
  fixes now logMonoTime :: u64
  assumes "logMonoTime \<le> now"
  shows "can_send_message fake_send g now logMonoTime sendcan =
           (if older_than_1s now logMonoTime \<or> fake_send then Inr []
            else if main_shift g = 0 then Inr [CanSend Main sendcan]
            else if aux_connected g then Inr [CanSend Aux sendcan]
            else Inl (NullBoard Aux))"
proof -
  have "int (unat (now - logMonoTime)) = age_ns now logMonoTime"
    using assms by (rule unat_sub_past)
  then have "unat (now - logMonoTime) < 1000000000 \<longleftrightarrow> age_ns now logMonoTime < 1000000000"
    by linarith
  then have "not_too_old now logMonoTime \<longleftrightarrow> \<not> older_than_1s now logMonoTime"
    unfolding not_too_old_iff older_than_1s_def by linarith
  then show ?thesis by (simp add: can_send_message_def)
qed

theorem can_send_past_timestamp_witness:
  "can_send_message False (two_boards\<lparr>main_shift := 3\<rparr>) 1500000000 700000000 [1::nat]
     = Inr [CanSend Aux [1]]
   \<and> can_send_message False two_boards 1500000000 700000000 [1::nat] = Inr [CanSend Main [1]]
   \<and> can_send_message False two_boards 1500000000 500000000 [1::nat] = Inr []"
  using can_send_past_timestamp [of 700000000 1500000000 False "two_boards\<lparr>main_shift := 3\<rparr>" "[1::nat]"]
    can_send_past_timestamp [of 700000000 1500000000 False two_boards "[1::nat]"]
    can_send_past_timestamp [of 500000000 1500000000 False two_boards "[1::nat]"]
  by (simp add: older_than_1s_def age_ns_def two_boards_def)

theorem can_send_future_not_old_but_dropped:
  "\<not> older_than_1s 5 7 \<and> main_shift one_board = 0
   \<and> can_send_message False one_board 5 7 [1::nat] = Inr []"
  by (simp add: older_than_1s_def age_ns_def can_send_message_def not_too_old_iff one_board_def)

text \<open>
  Claim C10, as the code has it. For a message stamped ahead of the clock by at most
  \<open>2^64 - 10^9\<close> nanoseconds, the unsigned difference wraps to \<open>2^64\<close> minus the lead,
  which is not below \<open>10^9\<close>, and nothing is sent to any board. A larger lead wraps to a
  value below \<open>10^9\<close>: the counterexample below is forwarded.
\<close>

theorem can_send_future_timestamp:
  fixes now logMonoTime :: u64
  assumes "now < logMonoTime" and "unat (logMonoTime - now) \<le> 2 ^ 64 - 1000000000"
  shows "unat (now - logMonoTime) = 2 ^ 64 - unat (logMonoTime - now)
         \<and> 1000000000 \<le> unat (now - logMonoTime)
         \<and> can_send_message fake_send g now logMonoTime sendcan = Inr []"
proof -
  have w: "unat (now - logMonoTime) = 2 ^ 64 - unat (logMonoTime - now)"
    using assms(1) by (rule unat_sub_future)
  have "1000000000 \<le> unat (now - logMonoTime)"
  proof -
    have "(2::nat) ^ 64 = 18446744073709551616" by simp
    then show ?thesis using assms(2) unfolding w by linarith
  qed
  then show ?thesis using w by (simp add: can_send_message_def not_too_old_iff)
qed

theorem can_send_future_timestamp_witness:
  "(5::u64) < 7 \<and> unat (5 - 7 :: u64) = 2 ^ 64 - 2
   \<and> can_send_message False one_board 5 7 [1::nat] = Inr []"
  using can_send_future_timestamp [of 5 7 False one_board "[1::nat]"]
  by simp

theorem can_send_far_future_forwarded:
  "(0::u64) < 18446744073709551615 \<and> unat (0 - 18446744073709551615 :: u64) = 1
   \<and> can_send_message False one_board 0 18446744073709551615 [1::nat] = Inr [CanSend Main [1]]"
  by (simp add: can_send_message_def not_too_old_iff one_board_def)

subsection \<open>Board-state loop\<close>

text \<open>
  Claim C1 says that every iteration sets \<open>ignition\<close> from the board whose bus shift is
  0, with or without an aux board. The code does so only when an aux board is connected:
  the assignment sits inside the \<open>aux_panda != nullptr\<close> block, so with main alone the
  flag keeps the value it had, whatever main reports. (With \<open>spoofing_started\<close> the
  ignition line of main reads as 1.)
\<close>

theorem ignition_after_tick:
  "ignition (fst (panda_state_tick E g spoofing_started r s :: state_loop \<times> 'b action list)) =
     (if aux_connected g then
        (if main_shift g = 0
         then ignition_line (main_health r) \<noteq> 0 \<or> spoofing_started
              \<or> ignition_can (main_health r) \<noteq> 0
         else ignition_line (aux_health r) \<noteq> 0 \<or> ignition_can (aux_health r) \<noteq> 0)
      else ignition s)"
  by (simp add: panda_state_tick_def Let_def)

theorem ignition_after_tick_witness:
  "\<not> aux_connected one_board \<and> main_shift one_board = 0
   \<and> ignition_line (main_health (reads_of (parked\<lparr>ignition_line := 1\<rparr>) parked)) \<noteq> 0
   \<and> ignition (fst (panda_state_tick enum_instance one_board False
                      (reads_of (parked\<lparr>ignition_line := 1\<rparr>) parked) (loop boot)
                    :: state_loop \<times> unit action list)) = False"
  using ignition_after_tick [where E = enum_instance and g = one_board
          and spoofing_started = False and s = "loop boot" and 'b = unit
          and r = "reads_of (parked\<lparr>ignition_line := 1\<rparr>) parked"]
  by (simp add: one_board_def reads_of_def boot_def)

text \<open>
  Claim C4. In every iteration, a board whose polled health reports \<open>SILENT\<close> is
  commanded to \<open>NO_OUTPUT\<close> by the very next call: for main the iteration starts with
  the poll and the command, and for a connected aux the poll of aux is directly followed
  by the command to aux.
\<close>

theorem silent_board_gets_no_output:
  fixes acts :: "'b action list"
  assumes "acts = snd (panda_state_tick E g spoofing_started r s)"
  shows "(safety_model (main_health r) = ucast (SILENT E) \<longrightarrow>
            take 2 acts = [GetState Main, SetSafetyModel Main (NO_OUTPUT E) None]
            \<and> directly_followed (GetState Main) (SetSafetyModel Main (NO_OUTPUT E) None) acts)
       \<and> (aux_connected g \<and> safety_model (aux_health r) = ucast (SILENT E) \<longrightarrow>
            GetState Aux \<in> set acts
            \<and> directly_followed (GetState Aux) (SetSafetyModel Aux (NO_OUTPUT E) None) acts)"
  unfolding assms
  by (simp add: panda_state_tick_def Let_def)

theorem silent_board_gets_no_output_witness:
  "safety_model (parked\<lparr>safety_model := 0\<rparr>) = ucast (SILENT enum_instance)
   \<and> aux_connected two_boards
   \<and> snd (panda_state_tick enum_instance two_boards False
             (reads_of (parked\<lparr>safety_model := 0\<rparr>) (parked\<lparr>safety_model := 0\<rparr>))
             (loop boot) :: state_loop \<times> unit action list)
       = [GetState Main, SetSafetyModel Main 19 None, GetState Aux, SetSafetyModel Aux 19 None,
          SetSafetyModel Aux 19 None, SetSafetyModel Main 19 None, GetRtc Main, SetRtc Main,
          GetFanSpeed Main, PublishPandaState False, SendHeartbeat Main, SendHeartbeat Aux]
   \<and> directly_followed (GetState Aux) (SetSafetyModel Aux (NO_OUTPUT enum_instance) None)
         (snd (panda_state_tick enum_instance two_boards False
             (reads_of (parked\<lparr>safety_model := 0\<rparr>) (parked\<lparr>safety_model := 0\<rparr>))
             (loop boot) :: state_loop \<times> unit action list))"
  using silent_board_gets_no_output [OF refl, where E = enum_instance and g = two_boards
          and spoofing_started = False and s = "loop boot" and 'b = unit
          and r = "reads_of (parked\<lparr>safety_model := 0\<rparr>) (parked\<lparr>safety_model := 0\<rparr>)"]
  by (simp add: panda_state_tick_def Let_def enum_instance_def two_boards_def reads_of_def
        parked_def boot_def rtc_differs_iff)

text \<open>
  Claim C5. In every iteration that leaves \<open>ignition\<close> false, if the polled safety model
  of main is not \<open>NO_OUTPUT\<close> then \<open>NO_OUTPUT\<close> is commanded on main in that iteration,
  and it is the last safety model the iteration commands on main.
\<close>

theorem parked_main_gets_no_output:
  fixes acts :: "'b action list"
  assumes "(s', acts) = panda_state_tick E g spoofing_started r s"
    and "\<not> ignition s'"
    and "safety_model (main_health r) \<noteq> ucast (NO_OUTPUT E)"
  shows "SetSafetyModel Main (NO_OUTPUT E) None \<in> set acts
         \<and> safety_models_on Main acts \<noteq> []
         \<and> last (safety_models_on Main acts) = NO_OUTPUT E"
  using assms
  by (simp add: panda_state_tick_def Let_def split: if_splits)

theorem parked_main_gets_no_output_witness:
  "\<not> ignition (fst (panda_state_tick enum_instance two_boards False
                       (reads_of (parked\<lparr>safety_model := 3\<rparr>) parked) (loop boot)
                     :: state_loop \<times> unit action list))
   \<and> safety_model (parked\<lparr>safety_model := 3\<rparr>) \<noteq> ucast (NO_OUTPUT enum_instance)
   \<and> safety_models_on Main
         (snd (panda_state_tick enum_instance two_boards False
                 (reads_of (parked\<lparr>safety_model := 3\<rparr>) parked) (loop boot)
               :: state_loop \<times> unit action list)) = [19]"
  using parked_main_gets_no_output [where E = enum_instance and g = two_boards
          and spoofing_started = False and s = "loop boot" and 'b = unit
          and r = "reads_of (parked\<lparr>safety_model := 3\<rparr>) parked"
          and s' = "fst (panda_state_tick enum_instance two_boards False
                       (reads_of (parked\<lparr>safety_model := 3\<rparr>) parked) (loop boot)
                     :: state_loop \<times> unit action list)"
          and acts = "snd (panda_state_tick enum_instance two_boards False
                       (reads_of (parked\<lparr>safety_model := 3\<rparr>) parked) (loop boot)
                     :: state_loop \<times> unit action list)"]
  by (simp add: panda_state_tick_def Let_def enum_instance_def two_boards_def reads_of_def
        parked_def boot_def rtc_differs_iff)

text \<open>
  Claim C9. In every iteration, host time is written to the RTC of main if and only if
  main has an RTC, \<open>ignition\<close> is false, \<open>no_ignition_cnt % 120 == 1\<close>, host time is
  valid, and host time and RTC differ by more than 1.1 s in absolute value; so in
  particular no write when they differ by at most 1.1 s.
\<close>

theorem rtc_written_iff:
  fixes acts :: "'b action list"
  assumes "(s', acts) = panda_state_tick E g spoofing_started r s"
  shows "SetRtc Main \<in> set acts \<longleftrightarrow>
           main_has_rtc g \<and> \<not> ignition s' \<and> unat (no_ignition_cnt s') mod 120 = 1
           \<and> sys_time_valid r \<and> (11 / 10 :: rat) < \<bar>of_int (rtc_secs r) - of_int (sys_secs r)\<bar>"
  using assms
  by (simp add: panda_state_tick_def Let_def rtc_differs_exact split: if_splits)

theorem rtc_written_iff_witness:
  "SetRtc Main \<in> set (snd (panda_state_tick enum_instance one_board False (reads_of parked parked)
                             (loop boot) :: state_loop \<times> unit action list))
   \<and> SetRtc Main \<notin> set (snd (panda_state_tick enum_instance one_board False
                                ((reads_of parked parked)\<lparr>rtc_secs := 1001\<rparr>)
                                (loop boot) :: state_loop \<times> unit action list))"
  using rtc_written_iff [where E = enum_instance and g = one_board
          and spoofing_started = False and s = "loop boot" and 'b = unit
          and r = "reads_of parked parked"
          and s' = "fst (panda_state_tick enum_instance one_board False (reads_of parked parked)
                       (loop boot) :: state_loop \<times> unit action list)"
          and acts = "snd (panda_state_tick enum_instance one_board False (reads_of parked parked)
                       (loop boot) :: state_loop \<times> unit action list)"]
    rtc_written_iff [where E = enum_instance and g = one_board
          and spoofing_started = False and s = "loop boot" and 'b = unit
          and r = "(reads_of parked parked)\<lparr>rtc_secs := 1001\<rparr>"
          and s' = "fst (panda_state_tick enum_instance one_board False
                       ((reads_of parked parked)\<lparr>rtc_secs := 1001\<rparr>)
                       (loop boot) :: state_loop \<times> unit action list)"
          and acts = "snd (panda_state_tick enum_instance one_board False
                       ((reads_of parked parked)\<lparr>rtc_secs := 1001\<rparr>)
                       (loop boot) :: state_loop \<times> unit action list)"]
  by (simp add: panda_state_tick_def Let_def one_board_def reads_of_def boot_def)

subsection \<open>Launching the safety-setter\<close>

lemma tick_launches:
  "launches (snd (panda_state_tick E g sp r s :: state_loop \<times> 'b action list)) =
     (if ignition (fst (panda_state_tick E g sp r s :: state_loop \<times> 'b action list))
         \<and> \<not> ignition_last s \<and> \<not> safety_setter_thread_running s then 1 else 0)"
  by (simp add: panda_state_tick_def Let_def launches_def)

lemma tick_running:
  "safety_setter_thread_running (fst (panda_state_tick E g sp r s :: state_loop \<times> 'b action list)) =
     (safety_setter_thread_running s \<or>
      ignition (fst (panda_state_tick E g sp r s :: state_loop \<times> 'b action list))
         \<and> \<not> ignition_last s)"
  by (auto simp add: panda_state_tick_def Let_def)

lemma tick_clears_first:
  fixes acts :: "'b action list"
  assumes "(s', acts) = panda_state_tick E g sp r s" and "ignition s'" and "\<not> ignition_last s"
  shows "ClearAll CLEAR_ON_IGNITION_ON \<in> set acts
         \<and> LaunchSafetySetter \<notin> set (takeWhile (\<lambda>a. a \<noteq> ClearAll CLEAR_ON_IGNITION_ON) acts)"
  using assms
  by (simp add: panda_state_tick_def Let_def split: if_splits)

lemma tick_stores_then_launches:
  fixes acts :: "'b action list"
  assumes "(s', acts) = panda_state_tick E g sp r s" and "ignition s'" and "\<not> ignition_last s"
    and "\<not> safety_setter_thread_running s"
  shows "directly_followed (ClearAll CLEAR_ON_IGNITION_ON) (StoreSetterRunning True) acts
         \<and> directly_followed (StoreSetterRunning True) LaunchSafetySetter acts"
  using assms
  by (simp add: panda_state_tick_def Let_def split: if_splits)

lemma step_invariant:
  "setter_invariant d \<Longrightarrow> setter_invariant (daemon_step E g sp d ev)"
proof (cases ev)
  case (Tick r)
  assume inv: "setter_invariant d"
  obtain s' acts
    where t: "(panda_state_tick E g sp r (loop d) :: state_loop \<times> unit action list) = (s', acts)"
    by (cases "panda_state_tick E g sp r (loop d) :: state_loop \<times> unit action list")
  have l: "launches acts =
             (if ignition s' \<and> \<not> ignition_last (loop d)
                 \<and> \<not> safety_setter_thread_running (loop d) then 1 else 0)"
    using tick_launches [of E g sp r "loop d", where 'b = unit] t by simp
  have f: "safety_setter_thread_running s' =
             (safety_setter_thread_running (loop d) \<or> ignition s' \<and> \<not> ignition_last (loop d))"
    using tick_running [of E g sp r "loop d", where 'b = unit] t by simp
  show ?thesis using inv Tick t l f by (auto simp: setter_invariant_def)
next
  case SetterEnds
  assume "setter_invariant d"
  then show ?thesis using SetterEnds by (auto simp: setter_invariant_def)
qed

lemma run_invariant:
  "setter_invariant d \<Longrightarrow> setter_invariant (daemon_run E g sp d evs)"
  unfolding daemon_run_def
  by (induction evs arbitrary: d) (simp_all add: step_invariant)

lemma boot_invariant: "setter_invariant boot"
  by (simp add: setter_invariant_def boot_def)

text \<open>
  Claim C6. In every iteration in which \<open>ignition\<close> goes from false to true, the
  parameters tagged \<open>CLEAR_ON_IGNITION_ON\<close> are cleared before any safety-setter is
  launched; one is launched exactly when \<open>safety_setter_thread_running\<close> was false, right
  after the flag is stored true, and the flag is true afterwards. Hence, however the iterations of the loop and the ends of
  launched tasks interleave from boot on, at most one safety-setter task is live.
\<close>

theorem one_setter_after_clearing:
  fixes acts :: "'b action list"
  assumes "(s', acts) = panda_state_tick E g spoofing_started r s"
    and "ignition s'" and "\<not> ignition_last s"
  shows "ClearAll CLEAR_ON_IGNITION_ON \<in> set acts
         \<and> LaunchSafetySetter \<notin> set (takeWhile (\<lambda>a. a \<noteq> ClearAll CLEAR_ON_IGNITION_ON) acts)
         \<and> launches acts = (if safety_setter_thread_running s then 0 else 1)
         \<and> (\<not> safety_setter_thread_running s \<longrightarrow>
               directly_followed (ClearAll CLEAR_ON_IGNITION_ON) (StoreSetterRunning True) acts
               \<and> directly_followed (StoreSetterRunning True) LaunchSafetySetter acts)
         \<and> safety_setter_thread_running s'
         \<and> live_setters (daemon_run E g spoofing_started boot evs) \<le> 1"
proof -
  have a: "s' = fst (panda_state_tick E g spoofing_started r s :: state_loop \<times> 'b action list)"
    and b: "acts = snd (panda_state_tick E g spoofing_started r s :: state_loop \<times> 'b action list)"
    using assms(1) by (metis fst_conv, metis snd_conv)
  have "launches acts = (if safety_setter_thread_running s then 0 else 1)"
    using tick_launches [of E g spoofing_started r s, where 'b = 'b] assms(2,3) a b by simp
  moreover have "safety_setter_thread_running s'"
    using tick_running [of E g spoofing_started r s, where 'b = 'b] assms(2,3) a by simp
  moreover have "live_setters (daemon_run E g spoofing_started boot evs) \<le> 1"
    using run_invariant [OF boot_invariant, of E g spoofing_started evs]
    by (simp add: setter_invariant_def)
  ultimately show ?thesis
    using tick_clears_first [OF assms] tick_stores_then_launches [OF assms] by simp
qed

theorem one_setter_after_clearing_witness:
  "ignition (fst (panda_state_tick enum_instance two_boards False
                    (reads_of (parked\<lparr>ignition_line := 1\<rparr>) parked) (loop boot)
                  :: state_loop \<times> unit action list))
   \<and> \<not> ignition_last (loop boot)
   \<and> snd (panda_state_tick enum_instance two_boards False
             (reads_of (parked\<lparr>ignition_line := 1\<rparr>) parked) (loop boot)
           :: state_loop \<times> unit action list)
       = [GetState Main, GetState Aux, SetPowerSaving Main False, SetPowerSaving Aux False,
          ClearAll CLEAR_ON_IGNITION_ON, StoreSetterRunning True, LaunchSafetySetter,
          GetFanSpeed Main, PublishPandaState True, SendHeartbeat Main, SendHeartbeat Aux]
   \<and> live_setters (daemon_run enum_instance two_boards False boot
         [Tick (reads_of (parked\<lparr>ignition_line := 1\<rparr>) parked),
          Tick (reads_of parked parked),
          Tick (reads_of (parked\<lparr>ignition_line := 1\<rparr>) parked),
          SetterEnds,
          Tick (reads_of parked parked),
          Tick (reads_of (parked\<lparr>ignition_line := 1\<rparr>) parked)]) = 1"
  using one_setter_after_clearing [where E = enum_instance and g = two_boards
          and spoofing_started = False and s = "loop boot" and 'b = unit
          and r = "reads_of (parked\<lparr>ignition_line := 1\<rparr>) parked"
          and s' = "fst (panda_state_tick enum_instance two_boards False
                       (reads_of (parked\<lparr>ignition_line := 1\<rparr>) parked) (loop boot)
                     :: state_loop \<times> unit action list)"
          and acts = "snd (panda_state_tick enum_instance two_boards False
                       (reads_of (parked\<lparr>ignition_line := 1\<rparr>) parked) (loop boot)
                     :: state_loop \<times> unit action list)"
          and evs = "[Tick (reads_of (parked\<lparr>ignition_line := 1\<rparr>) parked)]"]
  by (simp add: panda_state_tick_def Let_def enum_instance_def two_boards_def reads_of_def
        parked_def boot_def rtc_differs_iff daemon_run_def launches_def)

subsection \<open>Safety-setter task\<close>

lemma vin_loop_skip:
  "list_all no_vin pre \<Longrightarrow> vin_loop (pre @ ps) = vin_loop ps"
  by (induction pre) (simp_all add: no_vin_def alive_def)

lemma vin_loop_found:
  "has_vin p \<Longrightarrow> vin_loop (p # ps) = Break (CarVin p) ps"
  by (simp add: has_vin_def alive_def)

lemma params_loop_skip:
  "list_all not_ready pre \<Longrightarrow> params_loop (pre @ ps) = params_loop ps"
  by (induction pre) (auto simp add: not_ready_def alive_def)

lemma params_loop_found:
  "ready p \<Longrightarrow> params_loop (p # ps) = Break (CarParams p) ps"
  by (simp add: ready_def alive_def)

lemma vin_loop_Break:
  "vin_loop polls = Break v ps \<Longrightarrow>
     \<exists>pre p. polls = pre @ p # ps \<and> list_all no_vin pre \<and> has_vin p \<and> v = CarVin p"
proof (induction polls)
  case Nil
  then show ?case by simp
next
  case (Cons q qs)
  show ?case
  proof (cases "no_vin q")
    case True
    then have "vin_loop qs = Break v ps"
      using Cons.prems by (simp add: no_vin_def alive_def)
    then obtain pre p where "qs = pre @ p # ps" "list_all no_vin pre" "has_vin p" "v = CarVin p"
      using Cons.IH by blast
    then have "q # qs = (q # pre) @ p # ps \<and> list_all no_vin (q # pre) \<and> has_vin p \<and> v = CarVin p"
      using True by simp
    then show ?thesis by blast
  next
    case False
    then have "q # qs = [] @ q # ps \<and> list_all no_vin [] \<and> has_vin q \<and> v = CarVin q"
      using Cons.prems by (auto simp add: no_vin_def has_vin_def alive_def split: if_splits)
    then show ?thesis by blast
  qed
qed

lemma params_loop_Break:
  "params_loop polls = Break v ps \<Longrightarrow>
     \<exists>pre p. polls = pre @ p # ps \<and> list_all not_ready pre \<and> ready p \<and> v = CarParams p"
proof (induction polls)
  case Nil
  then show ?case by simp
next
  case (Cons q qs)
  show ?case
  proof (cases "not_ready q")
    case True
    then have "params_loop qs = Break v ps"
      using Cons.prems by (auto simp add: not_ready_def alive_def split: if_splits)
    then obtain pre p where "qs = pre @ p # ps" "list_all not_ready pre" "ready p" "v = CarParams p"
      using Cons.IH by blast
    then have "q # qs = (q # pre) @ p # ps \<and> list_all not_ready (q # pre) \<and> ready p \<and> v = CarParams p"
      using True by simp
    then show ?thesis by blast
  next
    case False
    then have "q # qs = [] @ q # ps \<and> list_all not_ready [] \<and> ready q \<and> v = CarParams q"
      using Cons.prems by (auto simp add: not_ready_def ready_def alive_def split: if_splits)
    then show ?thesis by blast
  qed
qed

lemma setter_through_both_loops:
  assumes "list_all no_vin pre1" and "has_vin p1" and "list_all not_ready pre2" and "ready p2"
  shows "safety_setter_thread E decode g (pre1 @ p1 # pre2 @ p2 # rest) =
           \<lparr>commands = full_sequence E g (decode (CarParams p2)),
            running_flag = False, ending = Completed\<rparr>"
proof -
  have v: "vin_loop (pre1 @ p1 # pre2 @ p2 # rest) = Break (CarVin p1) (pre2 @ p2 # rest)"
    by (simp only: vin_loop_skip [OF assms(1)] vin_loop_found [OF assms(2)])
  have p: "params_loop (pre2 @ p2 # rest) = Break (CarParams p2) rest"
    by (simp only: params_loop_skip [OF assms(3)] params_loop_found [OF assms(4)])
  show ?thesis
    by (simp add: safety_setter_thread_def v p Let_def full_sequence_def diag_commands_def
          locked_commands_def target_commands_def to_boards_def split: prod.split)
qed

lemma setter_completed_shape:
  assumes "ending (safety_setter_thread E decode g polls :: 'b setter_run) = Completed"
  shows "\<exists>pre1 p1 pre2 p2 rest. polls = pre1 @ p1 # pre2 @ p2 # rest
           \<and> list_all no_vin pre1 \<and> has_vin p1 \<and> list_all not_ready pre2 \<and> ready p2"
proof -
  obtain v ps where v: "vin_loop polls = Break v ps"
    using assms by (cases "vin_loop polls") (simp_all add: safety_setter_thread_def Let_def)
  obtain w qs where w: "params_loop ps = Break w qs"
    using assms v
    by (cases "params_loop ps") (simp_all add: safety_setter_thread_def Let_def)
  obtain pre1 p1 where a: "polls = pre1 @ p1 # ps" "list_all no_vin pre1" "has_vin p1"
    using vin_loop_Break [OF v] by blast
  obtain pre2 p2 where b: "ps = pre2 @ p2 # qs" "list_all not_ready pre2" "ready p2"
    using params_loop_Break [OF w] by blast
  show ?thesis using a b by blast
qed

lemma setter_flag:
  "running_flag (safety_setter_thread E decode g polls :: 'b setter_run) \<longleftrightarrow>
     ending (safety_setter_thread E decode g polls :: 'b setter_run) \<in> {AssertFailed, StillPolling}"
  by (simp add: safety_setter_thread_def Let_def split: loop_exit.split prod.split)

lemma vin_loop_pending: "list_all no_vin pre \<Longrightarrow> vin_loop pre = Pending"
  using vin_loop_skip [of pre "[]"] by simp

lemma params_loop_pending: "list_all not_ready pre \<Longrightarrow> params_loop pre = Pending"
  using params_loop_skip [of pre "[]"] by simp

lemma setter_polling_for_vin:
  assumes "list_all no_vin pre1"
  shows "safety_setter_thread E decode g pre1 =
           \<lparr>commands = diag_commands E g, running_flag = True, ending = StillPolling\<rparr>"
  by (simp add: safety_setter_thread_def vin_loop_pending [OF assms] diag_commands_def
        to_boards_def)

lemma setter_polling_for_params:
  assumes "list_all no_vin pre1" and "has_vin p1" and "list_all not_ready pre2"
  shows "safety_setter_thread E decode g (pre1 @ p1 # pre2) =
           \<lparr>commands = diag_commands E g @ locked_commands E g,
            running_flag = True, ending = StillPolling\<rparr>"
proof -
  have v: "vin_loop (pre1 @ p1 # pre2) = Break (CarVin p1) pre2"
    by (simp only: vin_loop_skip [OF assms(1)] vin_loop_found [OF assms(2)])
  show ?thesis
    by (simp add: safety_setter_thread_def v params_loop_pending [OF assms(3)] Let_def
          diag_commands_def locked_commands_def to_boards_def)
qed

lemma setter_starts_with_diag:
  "take (length (diag_commands E g :: 'b action list))
        (commands (safety_setter_thread E decode g polls :: 'b setter_run)) = diag_commands E g"
  by (simp add: safety_setter_thread_def Let_def diag_commands_def to_boards_def
        split: loop_exit.split prod.split)

lemma setter_stages:
  fixes run :: "'b setter_run"
  assumes "run = safety_setter_thread E decode g polls"
  shows "(commands run = diag_commands E g \<and> (\<forall>v ps. vin_loop polls \<noteq> Break v ps))
       \<or> (commands run = diag_commands E g @ locked_commands E g
           \<and> (\<exists>v ps. vin_loop polls = Break v ps) \<and> ending run \<noteq> Completed)
       \<or> ending run = Completed"
  unfolding assms
  by (simp add: safety_setter_thread_def Let_def diag_commands_def locked_commands_def
        to_boards_def split: loop_exit.split prod.split)

lemma diag_not_locked_prefix:
  "(diag_commands E g :: 'b action list) \<noteq> diag_commands E g @ locked_commands E g"
  by (simp add: locked_commands_def to_boards_def)

lemma setter_past_first_loop:
  fixes run :: "'b setter_run"
  assumes "run = safety_setter_thread E decode g polls" and "commands run \<noteq> diag_commands E g"
  shows "\<exists>qs1 q1 qs2. polls = qs1 @ q1 # qs2 \<and> list_all no_vin qs1 \<and> has_vin q1"
proof -
  have "\<exists>v ps. vin_loop polls = Break v ps"
    using assms
    by (cases "vin_loop polls")
       (simp_all add: safety_setter_thread_def Let_def diag_commands_def to_boards_def)
  then obtain v ps where "vin_loop polls = Break v ps" by blast
  then show ?thesis using vin_loop_Break by blast
qed

lemma setter_past_second_loop:
  fixes run :: "'b setter_run"
  assumes "run = safety_setter_thread E decode g polls"
    and "commands run \<noteq> diag_commands E g"
    and "commands run \<noteq> diag_commands E g @ locked_commands E g"
  shows "ending run = Completed"
  using setter_stages [OF assms(1)] assms(2,3) by blast

text \<open>
  Claim C3. A run of the task that is not cut short makes its board commands in three
  stages, in this order, and nothing else. On entry, before anything is read, it commands
  \<open>ELM327\<close> to main and aux, and while no reading has a VIN that is all it has
  commanded. Once a reading has a VIN (of length 17, or the assertion fails) it commands
  \<open>ELM327\<close> with param 1 to main and aux, and while no reading has \<open>ControlsReady\<close>
  with non-empty \<open>CarParams\<close> that is all. On such a reading it commands unsafe mode 0 on
  main and the safety model and param decoded from \<open>CarParams\<close> to main and aux, clears
  \<open>safety_setter_thread_running\<close>, and ends. Conversely, whatever the readings: every run
  starts with the entry commands, has commanded more only after a VIN reading, has
  commanded more than the first two stages only when it completed, and a completed run
  went through exactly these stages. (Aux is commanded whenever it is connected; a run
  that is cut short also clears the flag.)
\<close>

theorem safety_setter_sequence:
  fixes run :: "'b setter_run"
  shows "(list_all no_vin pre1 \<longrightarrow>
            safety_setter_thread E decode g pre1 =
              (\<lparr>commands = diag_commands E g,
                running_flag = True, ending = StillPolling\<rparr> :: 'b setter_run))
       \<and> (list_all no_vin pre1 \<and> has_vin p1 \<and> list_all not_ready pre2 \<longrightarrow>
            safety_setter_thread E decode g (pre1 @ p1 # pre2) =
              (\<lparr>commands = diag_commands E g @ locked_commands E g,
                running_flag = True, ending = StillPolling\<rparr> :: 'b setter_run))
       \<and> (list_all no_vin pre1 \<and> has_vin p1 \<and> list_all not_ready pre2 \<and> ready p2 \<longrightarrow>
            safety_setter_thread E decode g (pre1 @ p1 # pre2 @ p2 # rest) =
              (\<lparr>commands = full_sequence E g (decode (CarParams p2)),
                running_flag = False, ending = Completed\<rparr> :: 'b setter_run))
       \<and> (run = safety_setter_thread E decode g polls \<longrightarrow>
            take (length (diag_commands E g :: 'b action list)) (commands run) = diag_commands E g
            \<and> (commands run = diag_commands E g
                 \<or> commands run = diag_commands E g @ locked_commands E g
                 \<or> ending run = Completed)
            \<and> (commands run \<noteq> diag_commands E g \<longrightarrow>
                 (\<exists>qs1 q1 qs2. polls = qs1 @ q1 # qs2 \<and> list_all no_vin qs1 \<and> has_vin q1))
            \<and> (ending run = CutShort \<longrightarrow> \<not> running_flag run))
       \<and> (run = safety_setter_thread E decode g polls \<and> ending run = Completed \<longrightarrow>
            (\<exists>qs1 q1 qs2 q2 qs3.
               polls = qs1 @ q1 # qs2 @ q2 # qs3
               \<and> list_all no_vin qs1 \<and> has_vin q1 \<and> list_all not_ready qs2 \<and> ready q2
               \<and> commands run = full_sequence E g (decode (CarParams q2))
               \<and> \<not> running_flag run))"
proof -
  have s1: "list_all no_vin pre1 \<longrightarrow>
            safety_setter_thread E decode g pre1 =
              (\<lparr>commands = diag_commands E g,
                running_flag = True, ending = StillPolling\<rparr> :: 'b setter_run)"
    by (simp add: setter_polling_for_vin)
  have s2: "list_all no_vin pre1 \<and> has_vin p1 \<and> list_all not_ready pre2 \<longrightarrow>
            safety_setter_thread E decode g (pre1 @ p1 # pre2) =
              (\<lparr>commands = diag_commands E g @ locked_commands E g,
                running_flag = True, ending = StillPolling\<rparr> :: 'b setter_run)"
    by (simp add: setter_polling_for_params)
  have s3: "list_all no_vin pre1 \<and> has_vin p1 \<and> list_all not_ready pre2 \<and> ready p2 \<longrightarrow>
            safety_setter_thread E decode g (pre1 @ p1 # pre2 @ p2 # rest) =
              (\<lparr>commands = full_sequence E g (decode (CarParams p2)),
                running_flag = False, ending = Completed\<rparr> :: 'b setter_run)"
    by (simp add: setter_through_both_loops)
  have s4: "run = safety_setter_thread E decode g polls \<longrightarrow>
            take (length (diag_commands E g :: 'b action list)) (commands run) = diag_commands E g
            \<and> (commands run = diag_commands E g
                 \<or> commands run = diag_commands E g @ locked_commands E g
                 \<or> ending run = Completed)
            \<and> (commands run \<noteq> diag_commands E g \<longrightarrow>
                 (\<exists>qs1 q1 qs2. polls = qs1 @ q1 # qs2 \<and> list_all no_vin qs1 \<and> has_vin q1))
            \<and> (ending run = CutShort \<longrightarrow> \<not> running_flag run)"
  proof (intro impI conjI)
    assume r: "run = safety_setter_thread E decode g polls"
    show "take (length (diag_commands E g :: 'b action list)) (commands run) = diag_commands E g"
      unfolding r by (rule setter_starts_with_diag)
    show "commands run = diag_commands E g
          \<or> commands run = diag_commands E g @ locked_commands E g
          \<or> ending run = Completed"
      using setter_stages [OF r] by blast
    show "\<exists>qs1 q1 qs2. polls = qs1 @ q1 # qs2 \<and> list_all no_vin qs1 \<and> has_vin q1"
      if "commands run \<noteq> diag_commands E g"
      using setter_past_first_loop [OF r that] .
    show "\<not> running_flag run" if "ending run = CutShort"
      using that setter_flag [of E decode g polls, where 'b = 'b] unfolding r by simp
  qed
  have s5: "run = safety_setter_thread E decode g polls \<and> ending run = Completed \<longrightarrow>
            (\<exists>qs1 q1 qs2 q2 qs3.
               polls = qs1 @ q1 # qs2 @ q2 # qs3
               \<and> list_all no_vin qs1 \<and> has_vin q1 \<and> list_all not_ready qs2 \<and> ready q2
               \<and> commands run = full_sequence E g (decode (CarParams q2))
               \<and> \<not> running_flag run)"
  proof
    assume a: "run = safety_setter_thread E decode g polls \<and> ending run = Completed"
    then obtain qs1 q1 qs2 q2 qs3 where s: "polls = qs1 @ q1 # qs2 @ q2 # qs3"
      "list_all no_vin qs1" "has_vin q1" "list_all not_ready qs2" "ready q2"
      using setter_completed_shape [of E decode g polls, where 'b = 'b] by blast
    have "run = \<lparr>commands = full_sequence E g (decode (CarParams q2)),
              running_flag = False, ending = Completed\<rparr>"
      using a s by (simp add: setter_through_both_loops)
    then have "commands run = full_sequence E g (decode (CarParams q2))" "\<not> running_flag run"
      by simp_all
    with s show "\<exists>qs1 q1 qs2 q2 qs3.
               polls = qs1 @ q1 # qs2 @ q2 # qs3
               \<and> list_all no_vin qs1 \<and> has_vin q1 \<and> list_all not_ready qs2 \<and> ready q2
               \<and> commands run = full_sequence E g (decode (CarParams q2))
               \<and> \<not> running_flag run"
      by blast
  qed
  from s1 s2 s3 s4 s5 show ?thesis by (intro conjI)
qed

theorem safety_setter_sequence_witness:
  "list_all no_vin [quiet] \<and> has_vin vin_read \<and> list_all not_ready [quiet, quiet]
   \<and> ready params_read
   \<and> (safety_setter_thread enum_instance decode_instance two_boards [] :: unit setter_run)
       = \<lparr>commands = [SetSafetyModel Main 3 None, SetSafetyModel Aux 3 None],
          running_flag = True, ending = StillPolling\<rparr>
   \<and> (safety_setter_thread enum_instance decode_instance two_boards [quiet] :: unit setter_run)
       = \<lparr>commands = [SetSafetyModel Main 3 None, SetSafetyModel Aux 3 None],
          running_flag = True, ending = StillPolling\<rparr>
   \<and> (safety_setter_thread enum_instance decode_instance two_boards
         ([quiet] @ vin_read # [quiet, quiet]) :: unit setter_run)
       = \<lparr>commands =
            [SetSafetyModel Main 3 None, SetSafetyModel Aux 3 None,
             SetSafetyModel Main 3 (Some 1), SetSafetyModel Aux 3 (Some 1)],
          running_flag = True, ending = StillPolling\<rparr>
   \<and> (safety_setter_thread enum_instance decode_instance two_boards
         ([quiet] @ vin_read # [quiet, quiet] @ params_read # []) :: unit setter_run)
       = \<lparr>commands =
            [SetSafetyModel Main 3 None, SetSafetyModel Aux 3 None,
             SetSafetyModel Main 3 (Some 1), SetSafetyModel Aux 3 (Some 1),
             SetUnsafeMode Main 0,
             SetSafetyModel Main 1 (Some 0), SetSafetyModel Aux 1 (Some 0)],
          running_flag = False, ending = Completed\<rparr>
   \<and> take 2 (commands (safety_setter_thread enum_instance decode_instance two_boards
                 [quiet\<lparr>do_exit := True\<rparr>] :: unit setter_run))
       = [SetSafetyModel Main 3 None, SetSafetyModel Aux 3 None]
   \<and> \<not> running_flag (safety_setter_thread enum_instance decode_instance two_boards
                 [quiet\<lparr>do_exit := True\<rparr>] :: unit setter_run)"
proof -
  have h: "list_all no_vin [quiet]" "has_vin vin_read" "list_all not_ready [quiet, quiet]"
    "ready params_read" "list_all no_vin []"
    by (simp_all add: no_vin_def has_vin_def not_ready_def ready_def alive_def quiet_def
          vin_read_def params_read_def)
  have e: "(diag_commands enum_instance two_boards :: unit action list)
             = [SetSafetyModel Main 3 None, SetSafetyModel Aux 3 None]"
    "(locked_commands enum_instance two_boards :: unit action list)
             = [SetSafetyModel Main 3 (Some 1), SetSafetyModel Aux 3 (Some 1)]"
    "(full_sequence enum_instance two_boards (decode_instance (CarParams params_read))
        :: unit action list)
             = [SetSafetyModel Main 3 None, SetSafetyModel Aux 3 None,
                SetSafetyModel Main 3 (Some 1), SetSafetyModel Aux 3 (Some 1),
                SetUnsafeMode Main 0,
                SetSafetyModel Main 1 (Some 0), SetSafetyModel Aux 1 (Some 0)]"
    by (simp_all add: full_sequence_def diag_commands_def locked_commands_def
          target_commands_def to_boards_def enum_instance_def decode_instance_def two_boards_def)
  have c: "ending (safety_setter_thread enum_instance decode_instance two_boards
                 [quiet\<lparr>do_exit := True\<rparr>] :: unit setter_run) = CutShort"
    by (simp add: safety_setter_thread_def quiet_def)
  note t = safety_setter_sequence [where E = enum_instance and decode = decode_instance
          and g = two_boards and 'b = unit]
  have "(safety_setter_thread enum_instance decode_instance two_boards [] :: unit setter_run)
       = \<lparr>commands = [SetSafetyModel Main 3 None, SetSafetyModel Aux 3 None],
          running_flag = True, ending = StillPolling\<rparr>"
    using t [where ?pre1.0 = "[]"] h e by simp
  moreover have "(safety_setter_thread enum_instance decode_instance two_boards [quiet]
                    :: unit setter_run)
       = \<lparr>commands = [SetSafetyModel Main 3 None, SetSafetyModel Aux 3 None],
          running_flag = True, ending = StillPolling\<rparr>"
    using t [where ?pre1.0 = "[quiet]"] h e by simp
  moreover have "(safety_setter_thread enum_instance decode_instance two_boards
         ([quiet] @ vin_read # [quiet, quiet]) :: unit setter_run)
       = \<lparr>commands =
            [SetSafetyModel Main 3 None, SetSafetyModel Aux 3 None,
             SetSafetyModel Main 3 (Some 1), SetSafetyModel Aux 3 (Some 1)],
          running_flag = True, ending = StillPolling\<rparr>"
    using t [where ?pre1.0 = "[quiet]" and ?p1.0 = vin_read and ?pre2.0 = "[quiet, quiet]"] h e
    by simp
  moreover have "(safety_setter_thread enum_instance decode_instance two_boards
         ([quiet] @ vin_read # [quiet, quiet] @ params_read # []) :: unit setter_run)
       = \<lparr>commands =
            [SetSafetyModel Main 3 None, SetSafetyModel Aux 3 None,
             SetSafetyModel Main 3 (Some 1), SetSafetyModel Aux 3 (Some 1),
             SetUnsafeMode Main 0,
             SetSafetyModel Main 1 (Some 0), SetSafetyModel Aux 1 (Some 0)],
          running_flag = False, ending = Completed\<rparr>"
    using t [where ?pre1.0 = "[quiet]" and ?p1.0 = vin_read and ?pre2.0 = "[quiet, quiet]"
               and ?p2.0 = params_read and rest = "[]"] h e
    by simp
  moreover have "take 2 (commands (safety_setter_thread enum_instance decode_instance two_boards
                 [quiet\<lparr>do_exit := True\<rparr>] :: unit setter_run))
       = [SetSafetyModel Main 3 None, SetSafetyModel Aux 3 None]
     \<and> \<not> running_flag (safety_setter_thread enum_instance decode_instance two_boards
                 [quiet\<lparr>do_exit := True\<rparr>] :: unit setter_run)"
    using t [where polls = "[quiet\<lparr>do_exit := True\<rparr>]"
               and run = "safety_setter_thread enum_instance decode_instance two_boards
                 [quiet\<lparr>do_exit := True\<rparr>]"
               and ?pre1.0 = "[]" and ?p1.0 = vin_read and ?pre2.0 = "[]"
               and ?p2.0 = params_read and rest = "[]"] e c
    by (simp add: numeral_2_eq_2)
  ultimately show ?thesis using h by simp
qed

subsection \<open>GPS loop\<close>

text \<open>
  Claim C7 says that a buffer starting with a null byte while \<open>ignition\<close> is true is
  only logged. In the code that check sets \<open>need_reset\<close> (line 584), and
  \<open>need_reset\<close> initialises the receiver (line 594): here the car is on and was on, a
  single null byte arrives, and the iteration calls \<open>pigeon->init()\<close>.
\<close>

theorem null_byte_reinitialises_receiver:
  "pigeon_ignition_last steady_on \<and> recv null_byte_reads ! 0 = 0
   \<and> snd (pigeon_iteration True null_byte_reads steady_on)
       = [LogInvalid, PublishRaw [0], PigeonInit]"
  by (simp add: pigeon_iteration_def null_byte_reads_def steady_on_def cls_max_dt_def Let_def)

text \<open>
  Claim C7, as the code has it. An iteration initialises the receiver exactly on a rising
  edge of \<open>ignition\<close> or when \<open>ignition\<close> is true and the buffer starts with a null
  byte; a receive timeout alone never does (that reset is the one gated off). In the
  null-byte case the iteration logs the warning, initialises the receiver and primes the
  last-seen time of both classes to the clock plus 10 s.
\<close>

theorem receiver_init_iff:
  assumes "(s', acts) = pigeon_iteration ign r s"
  shows "(PigeonInit \<in> set acts \<longleftrightarrow>
            (ign \<and> \<not> pigeon_ignition_last s) \<or> (ign \<and> 0 < length (recv r) \<and> recv r ! 0 = 0))
       \<and> (ign \<and> 0 < length (recv r) \<and> recv r ! 0 = 0 \<longrightarrow>
            LogInvalid \<in> set acts \<and> PigeonInit \<in> set acts
            \<and> last_recv_time s' CLASS_NAV = t_init r + 10000000000
            \<and> last_recv_time s' CLASS_RXM = t_init r + 10000000000)"
  using assms
  by (auto simp add: pigeon_iteration_def cls_max_dt_def Let_def)

theorem receiver_init_iff_witness:
  "0 < length (recv null_byte_reads) \<and> recv null_byte_reads ! 0 = 0
   \<and> PigeonInit \<in> set (snd (pigeon_iteration True null_byte_reads steady_on))
   \<and> last_recv_time (fst (pigeon_iteration True null_byte_reads steady_on)) CLASS_NAV
       = 10000000007"
  using receiver_init_iff [where ign = True and r = null_byte_reads and s = steady_on
          and s' = "fst (pigeon_iteration True null_byte_reads steady_on)"
          and acts = "snd (pigeon_iteration True null_byte_reads steady_on)"]
  by (simp add: null_byte_reads_def)

subsection \<open>IR power\<close>

lemma half_is_binary32: "binary32 (MAX_IR_POWER - MIN_IR_POWER) = 1 / 2" by code_simp
lemma span_is_binary32: "binary32 (of_int (SATURATE_IL - CUTOFF_IL)) = 1400" by code_simp
lemma ir_pwr_double_1600: "ir_pwr_double 1600 = 50" by code_simp
lemma ir_pwr_double_max: "binary64 (100 * MAX_IR_POWER) = 50" by code_simp
lemma ir_pwr_double_min: "binary64 (100 * MIN_IR_POWER) = 0" by code_simp

lemma interpolated_mono:
  assumes "CUTOFF_IL \<le> x" and "x \<le> y"
  shows "0 \<le> interpolated x \<and> interpolated x \<le> interpolated y"
proof -
  define ax where "ax = binary32 (of_int (x - CUTOFF_IL))"
  define ay where "ay = binary32 (of_int (y - CUTOFF_IL))"
  define px where "px = binary32 (ax * (1 / 2))"
  define py where "py = binary32 (ay * (1 / 2))"
  define qx where "qx = binary32 (px / 1400)"
  define qy where "qy = binary32 (py / 1400)"
  have ix: "interpolated x = binary32 qx"
    unfolding interpolated_def half_is_binary32 span_is_binary32
    by (simp add: MIN_IR_POWER_def qx_def px_def ax_def)
  have iy: "interpolated y = binary32 qy"
    unfolding interpolated_def half_is_binary32 span_is_binary32
    by (simp add: MIN_IR_POWER_def qy_def py_def ay_def)
  have "(0::rat) \<le> of_int (x - CUTOFF_IL)" using assms(1) by simp
  moreover have "(of_int (x - CUTOFF_IL) :: rat) \<le> of_int (y - CUTOFF_IL)" using assms(2) by simp
  ultimately have a: "0 \<le> ax" "ax \<le> ay"
    unfolding ax_def ay_def by (simp_all only: fp_round_nonneg fp_round_mono zero_less_numeral)
  then have "0 \<le> ax * (1 / 2)" "ax * (1 / 2) \<le> ay * (1 / 2)" by simp_all
  then have p: "0 \<le> px" "px \<le> py"
    unfolding px_def py_def by (simp_all only: fp_round_nonneg fp_round_mono zero_less_numeral)
  then have "0 \<le> px / 1400" "px / 1400 \<le> py / 1400" by (simp_all add: divide_right_mono)
  then have q: "0 \<le> qx" "qx \<le> qy"
    unfolding qx_def qy_def by (simp_all only: fp_round_nonneg fp_round_mono zero_less_numeral)
  then show ?thesis
    unfolding ix iy by (simp only: fp_round_nonneg fp_round_mono zero_less_numeral)
qed

lemma ir_pwr_double_low: "x \<le> 200 \<Longrightarrow> ir_pwr_double x = 0"
  by (simp add: ir_pwr_double_def CUTOFF_IL_def ir_pwr_double_min)

lemma ir_pwr_double_high: "1600 < x \<Longrightarrow> ir_pwr_double x = 50"
  by (simp add: ir_pwr_double_def CUTOFF_IL_def SATURATE_IL_def ir_pwr_double_max)

lemma ir_pwr_double_mid:
  "200 < x \<Longrightarrow> x \<le> 1600 \<Longrightarrow> ir_pwr_double x = binary64 (100 * interpolated x)"
  by (simp add: ir_pwr_double_def CUTOFF_IL_def SATURATE_IL_def)

lemma ir_pwr_double_mid_mono:
  assumes "200 < x" and "x \<le> y" and "y \<le> 1600"
  shows "0 \<le> ir_pwr_double x \<and> ir_pwr_double x \<le> ir_pwr_double y"
proof -
  have "0 \<le> interpolated x" "interpolated x \<le> interpolated y"
    using interpolated_mono [of x y] assms by (simp_all add: CUTOFF_IL_def)
  then have "0 \<le> 100 * interpolated x" "100 * interpolated x \<le> 100 * interpolated y"
    by simp_all
  then have "0 \<le> binary64 (100 * interpolated x)"
    "binary64 (100 * interpolated x) \<le> binary64 (100 * interpolated y)"
    by (simp_all only: fp_round_nonneg fp_round_mono zero_less_numeral)
  then show ?thesis using assms by (simp add: ir_pwr_double_mid)
qed

lemma ir_pwr_double_range: "0 \<le> ir_pwr_double x \<and> ir_pwr_double x \<le> 50"
proof -
  consider "x \<le> 200" | "200 < x \<and> x \<le> 1600" | "1600 < x" by linarith
  then show ?thesis
  proof cases
    case 1 then show ?thesis by (simp add: ir_pwr_double_low)
  next
    case 2
    then show ?thesis
      using ir_pwr_double_mid_mono [of x 1600] by (simp add: ir_pwr_double_1600)
  next
    case 3 then show ?thesis by (simp add: ir_pwr_double_high)
  qed
qed

lemma ir_pwr_double_mono:
  assumes "x \<le> y"
  shows "ir_pwr_double x \<le> ir_pwr_double y"
proof -
  consider "x \<le> 200" | "200 < x \<and> y \<le> 1600" | "1600 < y" by linarith
  then show ?thesis
  proof cases
    case 1 then show ?thesis using ir_pwr_double_range [of y] by (simp add: ir_pwr_double_low)
  next
    case 2 then show ?thesis using assms ir_pwr_double_mid_mono [of x y] by simp
  next
    case 3 then show ?thesis using ir_pwr_double_range [of x] by (simp add: ir_pwr_double_high)
  qed
qed

lemma uint_ir_pwr_of: "uint (ir_pwr_of x) = \<lfloor>ir_pwr_double x\<rfloor>"
proof -
  have "0 \<le> \<lfloor>ir_pwr_double x\<rfloor>" "\<lfloor>ir_pwr_double x\<rfloor> \<le> 50"
    using ir_pwr_double_range [of x] by (simp_all add: floor_le_iff le_floor_iff)
  then show ?thesis
    by (simp add: ir_pwr_of_def to_uint16_def uint_word_of_int take_bit_int_eq_self)
qed

lemma uint_ir_pwr_of_mono: "x \<le> y \<Longrightarrow> uint (ir_pwr_of x) \<le> uint (ir_pwr_of y)"
  using ir_pwr_double_mono [of x y] by (simp add: uint_ir_pwr_of floor_mono)

lemma block_ends:
  "list_all (\<lambda>k. uint (ir_pwr_of (201 + 28 * k)) = k \<and> uint (ir_pwr_of (227 + 28 * k)) = k) [0..49]"
  by code_simp

lemma block_ends_at:
  assumes "0 \<le> k" and "k \<le> 49"
  shows "uint (ir_pwr_of (201 + 28 * k)) = k" and "uint (ir_pwr_of (227 + 28 * k)) = k"
proof -
  have "k \<in> set [0..49]" using assms by simp
  then have "uint (ir_pwr_of (201 + 28 * k)) = k \<and> uint (ir_pwr_of (227 + 28 * k)) = k"
    using block_ends unfolding list_all_iff by blast
  then show "uint (ir_pwr_of (201 + 28 * k)) = k" and "uint (ir_pwr_of (227 + 28 * k)) = k"
    by simp_all
qed

lemma ir_percent_exact_mid:
  assumes "200 < x" and "x \<le> 1600"
  shows "ir_percent_exact x = (x - 200) div 28"
proof -
  have "100 * ((1 / 2) * of_int (x - 200) / 1400 :: rat) = of_int (x - 200) / of_int 28"
    by simp
  then have "\<lfloor>100 * ((1 / 2) * of_int (x - 200) / 1400 :: rat)\<rfloor> = (x - 200) div 28"
    by (simp only: floor_divide_of_int_eq)
  then show ?thesis using assms by (simp add: ir_percent_exact_def)
qed

lemma ir_pwr_of_1600: "uint (ir_pwr_of 1600) = 50"
  by (simp add: uint_ir_pwr_of ir_pwr_double_1600)

lemma ir_within_one:
  assumes "200 < x" and "x \<le> 1600"
  shows "ir_percent_exact x - 1 \<le> uint (ir_pwr_of x) \<and> uint (ir_pwr_of x) \<le> ir_percent_exact x"
proof -
  define k where "k = (x - 200) div 28"
  have e: "ir_percent_exact x = k" using assms by (simp add: ir_percent_exact_mid k_def)
  have k0: "0 \<le> k" and k50: "k \<le> 50" using assms by (simp_all add: k_def)
  have lo: "200 + 28 * k \<le> x" and hi: "x \<le> 227 + 28 * k" unfolding k_def by linarith+
  show ?thesis
  proof (cases "k = 50")
    case True
    then have "x = 1600" using lo assms(2) by simp
    then show ?thesis using e True by (simp add: ir_pwr_of_1600)
  next
    case False
    then have k49: "k \<le> 49" using k50 by simp
    have "uint (ir_pwr_of x) \<le> uint (ir_pwr_of (227 + 28 * k))"
      using hi by (rule uint_ir_pwr_of_mono)
    then have up: "uint (ir_pwr_of x) \<le> k" using block_ends_at(2) [OF k0 k49] by simp
    have "k - 1 \<le> uint (ir_pwr_of x)"
    proof (cases "x = 200 + 28 * k")
      case True
      then have k1: "0 \<le> k - 1" "k - 1 \<le> 49" using assms(1) k49 by simp_all
      have "227 + 28 * (k - 1) \<le> x" using True by simp
      then have "uint (ir_pwr_of (227 + 28 * (k - 1))) \<le> uint (ir_pwr_of x)"
        by (rule uint_ir_pwr_of_mono)
      then show ?thesis using block_ends_at(2) [OF k1] by simp
    next
      case False
      then have "201 + 28 * k \<le> x" using lo by simp
      then have "uint (ir_pwr_of (201 + 28 * k)) \<le> uint (ir_pwr_of x)"
        by (rule uint_ir_pwr_of_mono)
      then show ?thesis using block_ends_at(1) [OF k0 k49] by simp
    qed
    then show ?thesis using up e by simp
  qed
qed

lemma spot_values:
  "ir_pwr_of 200 = 0 \<and> ir_pwr_of 900 = 25 \<and> ir_pwr_of 1600 = 50" by code_simp

text \<open>
  Claim C8 gives the IR power between cutoff and saturation as the whole percentage of
  \<open>100 * (0.5 * (integLines - 200) / 1400)\<close>. The code computes the quotient in
  \<open>float\<close>: at 228 lines the exact value is 1, the nearest \<open>float\<close> to 0.01 lies below
  0.01, and the power is 0.
\<close>

theorem ir_power_off_by_one_at_228:
  "ir_pwr_of 228 = 0 \<and> ir_percent_exact 228 = 1"
  by code_simp

text \<open>
  Claim C8, as the code has it. The IR power is 0 up to 200 lines and 50 above 1600
  lines; in between it is the whole part of 100 times the \<open>float\<close> interpolation, which
  is the whole percentage of the exact formula or one below it. 200 lines give 0, 1600
  give 50, 900 give 25, and the power never decreases when the lines increase.
\<close>

theorem ir_power_piecewise:
  "(x \<le> 200 \<longrightarrow> ir_pwr_of x = 0)
   \<and> (1600 < x \<longrightarrow> ir_pwr_of x = 50)
   \<and> (200 < x \<and> x \<le> 1600 \<longrightarrow>
        uint (ir_pwr_of x) = \<lfloor>binary64 (100 * interpolated x)\<rfloor>
        \<and> ir_percent_exact x - 1 \<le> uint (ir_pwr_of x)
        \<and> uint (ir_pwr_of x) \<le> ir_percent_exact x)
   \<and> ir_pwr_of 200 = 0 \<and> ir_pwr_of 1600 = 50 \<and> ir_pwr_of 900 = 25
   \<and> (x \<le> y \<longrightarrow> ir_pwr_of x \<le> ir_pwr_of y)"
proof -
  have a: "x \<le> 200 \<longrightarrow> ir_pwr_of x = 0"
    by (simp add: ir_pwr_of_def ir_pwr_double_low to_uint16_def)
  have b: "1600 < x \<longrightarrow> ir_pwr_of x = 50"
    by (simp add: ir_pwr_of_def ir_pwr_double_high to_uint16_def)
  have c: "200 < x \<and> x \<le> 1600 \<longrightarrow>
        uint (ir_pwr_of x) = \<lfloor>binary64 (100 * interpolated x)\<rfloor>
        \<and> ir_percent_exact x - 1 \<le> uint (ir_pwr_of x)
        \<and> uint (ir_pwr_of x) \<le> ir_percent_exact x"
    using ir_within_one [of x] by (simp add: uint_ir_pwr_of ir_pwr_double_mid)
  have d: "x \<le> y \<longrightarrow> ir_pwr_of x \<le> ir_pwr_of y"
    using uint_ir_pwr_of_mono [of x y] by (simp add: word_le_def)
  from a b c d spot_values show ?thesis by blast
qed

theorem ir_power_piecewise_witness:
  "ir_pwr_of 150 = 0 \<and> ir_pwr_of 2000 = 50
   \<and> ir_percent_exact 229 - 1 \<le> uint (ir_pwr_of 229)
   \<and> uint (ir_pwr_of 229) \<le> ir_percent_exact 229
   \<and> ir_pwr_of 700 \<le> ir_pwr_of 1000"
proof -
  have "ir_pwr_of 150 = 0" using ir_power_piecewise [of 150 150] by simp
  moreover have "ir_pwr_of 2000 = 50" using ir_power_piecewise [of 2000 2000] by simp
  moreover have "ir_percent_exact 229 - 1 \<le> uint (ir_pwr_of 229)
      \<and> uint (ir_pwr_of 229) \<le> ir_percent_exact 229"
    using ir_power_piecewise [of 229 229] by simp
  moreover have "ir_pwr_of 700 \<le> ir_pwr_of 1000" using ir_power_piecewise [of 700 1000] by simp
  ultimately show ?thesis by simp
qed

end
